theory Spec2Isabelle
  imports Main "HOL-Library.Word"
begin

section \<open>Record model\<close>

text \<open>
  The indexed store of cross-chain transactions (package \<open>db\<close>, type \<open>indexDB\<close>).
  Go's \<open>uint64\<close> is a 64-bit word (\<open>+\<close> wraps), \<open>common.Hash\<close> a 256-bit word, Go's
  \<open>int\<close> an integer whose arithmetic is wrapped to 64 bits by \<open>wrap_int\<close>.
\<close>

type_synonym uint64 = "64 word"
type_synonym hash = "256 word"
type_synonym address = "160 word"
type_synonym FieldName = string

text \<open>
  Go's \<open>int\<close> on a 64-bit platform: the result of an arithmetic operation is reduced to
  the two's-complement range.
\<close>

definition wrap_int :: "int \<Rightarrow> int" where
  "wrap_int x = (x + 9223372036854775808) mod 18446744073709551616 - 9223372036854775808"

text \<open>The field names of the source; \<open>PK\<close> and \<open>DestinationValue\<close> carry the suffix \<open>Field\<close>
  here, the plain names being the fields of the record.\<close>

definition PKField :: FieldName where
  "PKField = ''PK''"

definition CtxIdIndex :: FieldName where
  "CtxIdIndex = ''CtxId''"

definition TxHashIndex :: FieldName where
  "TxHashIndex = ''TxHash''"

definition PriceIndex :: FieldName where
  "PriceIndex = ''Price''"

definition StatusField :: FieldName where
  "StatusField = ''Status''"

definition FromField :: FieldName where
  "FromField = ''From''"

definition DestinationValueField :: FieldName where
  "DestinationValueField = ''DestinationValue''"

definition BlockNumField :: FieldName where
  "BlockNumField = ''BlockNum''"

text \<open>
  Modelled from the spec: the signed transaction \<open>cc.CrossTransactionWithSignatures\<close> of
  package \<open>cross/core\<close>, whose declaration is missing. It is the canonical in-memory form;
  the store reads its identity \<open>ID()\<close> and its origin block \<open>BlockHash()\<close>, and a record is
  built from it and converted back to it without loss.
\<close>

record CrossTransactionWithSignatures =
  ctx_ID :: hash
  ctx_BlockHash :: hash
  ctx_BlockNum :: uint64
  ctx_TxHash :: hash
  ctx_Price :: int
  ctx_Status :: "8 word"
  ctx_From :: address
  ctx_DestinationValue :: int
  ctx_Payload :: "8 word list"

text \<open>
  Modelled from the spec: the persisted form \<open>CrossTransactionIndexed\<close>, whose declaration
  is missing: the backend-assigned key \<open>PK\<close>, the unique \<open>CtxId\<close>, the origin block, the
  denormalised query fields and the opaque signed payload.
\<close>

record CrossTransactionIndexed =
  PK :: uint64
  CtxId :: hash
  BlockHash :: hash
  BlockNum :: uint64
  TxHash :: hash
  Price :: int
  Status :: "8 word"
  From :: address
  DestinationValue :: int
  Payload :: "8 word list"

text \<open>
  Modelled from the spec: \<open>NewCrossTransactionIndexed\<close> and \<open>ToCrossTransaction\<close>, the two
  conversions, which are missing; they lose nothing. A fresh record carries \<open>PK = 0\<close>; the
  backend assigns the key on save.
\<close>

definition NewCrossTransactionIndexed :: "CrossTransactionWithSignatures \<Rightarrow> CrossTransactionIndexed" where
  "NewCrossTransactionIndexed ctx =
     \<lparr>PK = 0, CtxId = ctx_ID ctx, BlockHash = ctx_BlockHash ctx, BlockNum = ctx_BlockNum ctx,
      TxHash = ctx_TxHash ctx, Price = ctx_Price ctx, Status = ctx_Status ctx,
      From = ctx_From ctx, DestinationValue = ctx_DestinationValue ctx,
      Payload = ctx_Payload ctx\<rparr>"

definition ToCrossTransaction :: "CrossTransactionIndexed \<Rightarrow> CrossTransactionWithSignatures" where
  "ToCrossTransaction r =
     \<lparr>ctx_ID = CtxId r, ctx_BlockHash = BlockHash r, ctx_BlockNum = BlockNum r,
      ctx_TxHash = TxHash r, ctx_Price = Price r, ctx_Status = Status r,
      ctx_From = From r, ctx_DestinationValue = DestinationValue r,
      ctx_Payload = Payload r\<rparr>"

text \<open>A lookup key is an \<open>interface{}\<close> in the source: the value of one field.\<close>

datatype key = KUint64 uint64 | KHash hash | KInt int | KUint8 "8 word" | KAddress address

definition field_of :: "FieldName \<Rightarrow> CrossTransactionIndexed \<Rightarrow> key option" where
  "field_of f r =
     (if f = PKField then Some (KUint64 (PK r))
      else if f = CtxIdIndex then Some (KHash (CtxId r))
      else if f = TxHashIndex then Some (KHash (TxHash r))
      else if f = PriceIndex then Some (KInt (Price r))
      else if f = StatusField then Some (KUint8 (Status r))
      else if f = FromField then Some (KAddress (From r))
      else if f = DestinationValueField then Some (KInt (DestinationValue r))
      else if f = BlockNumField then Some (KUint64 (BlockNum r))
      else None)"

fun key_ord :: "key \<Rightarrow> int" where
  "key_ord (KUint64 w) = uint w"
| "key_ord (KHash h) = uint h"
| "key_ord (KInt i) = i"
| "key_ord (KUint8 w) = uint w"
| "key_ord (KAddress a) = uint a"

definition field_ord :: "FieldName \<Rightarrow> CrossTransactionIndexed \<Rightarrow> int" where
  "field_ord f r = (case field_of f r of None \<Rightarrow> 0 | Some k \<Rightarrow> key_ord k)"

section \<open>Errors\<close>

text \<open>
  The errors of the backend, and \<open>ErrCtxDbFailure{msg, err}\<close>, the one error type of the
  store. A formatted message is kept as its format string with its arguments.
\<close>

datatype storm_error = ErrNotFound | ErrAlreadyExists | ErrBackend string

datatype cause = StormErr storm_error | Errorf string "hash list"

datatype ErrCtxDbFailure = ErrCtxDbFailure "string \<times> hash list" cause

text \<open>
  The error that \<open>Write\<close> builds on a diverging block hash; the specification calls it
  \<open>ReorgConflict\<close>.
\<close>

definition ReorgConflict :: "hash \<Rightarrow> hash \<Rightarrow> hash \<Rightarrow> ErrCtxDbFailure" where
  "ReorgConflict txID old new =
     ErrCtxDbFailure ('''', []) (Errorf ''blockchain reorg, txID:%s, old:%s, new:%s'' [txID, old, new])"

section \<open>Backend adapter\<close>

text \<open>
  Modelled from the spec: the ordered key-value engine (\<open>storm.Node\<close>) is an external
  collaborator. Its contract: insert with an auto-assigned, increasing \<open>PK\<close> under a unique
  \<open>CtxId\<close>; update by \<open>PK\<close>, which replaces the stored record; lookup by a unique or
  non-unique index; ascending or descending scans by index with a limit; predicate select
  with ordering, reverse, limit and skip; count. \<open>rows\<close> holds the records in insertion
  order, \<open>seq\<close> the last key assigned; \<open>failure\<close>, when set, is a fault of the engine that
  every call reports. A negative limit is no limit. A lookup, scan or query that finds
  nothing reports \<open>ErrNotFound\<close> and leaves the caller's slice \<open>nil\<close> (only \<open>AllByIndex\<close>
  returns an empty slice without an error); here both \<open>nil\<close> and the empty slice are \<open>[]\<close>.
  A failed count reports 0 with its error.
\<close>

record node =
  rows :: "CrossTransactionIndexed list"
  seq :: uint64
  failure :: "string option"

type_synonym matcher = "CrossTransactionIndexed \<Rightarrow> bool"

definition matches :: "matcher list \<Rightarrow> CrossTransactionIndexed \<Rightarrow> bool" where
  "matches ms r = list_all (\<lambda>m. m r) ms"

definition storm_Limit :: "int \<Rightarrow> 'a list \<Rightarrow> 'a list" where
  "storm_Limit n xs = (if n < 0 then xs else take (nat n) xs)"

definition storm_Skip :: "int \<Rightarrow> 'a list \<Rightarrow> 'a list" where
  "storm_Skip n xs = (if n \<le> 0 then xs else drop (nat n) xs)"

definition found :: "'a list \<Rightarrow> storm_error + 'a list" where
  "found xs = (if xs = [] then Inl ErrNotFound else Inr xs)"

definition db_Count :: "node \<Rightarrow> matcher list \<Rightarrow> int \<times> storm_error option" where
  "db_Count n ms =
     (case failure n of
        Some m \<Rightarrow> (0, Some (ErrBackend m))
      | None \<Rightarrow> (int (length (filter (matches ms) (rows n))), None))"

definition db_AllByIndex :: "node \<Rightarrow> FieldName \<Rightarrow> int \<Rightarrow> bool \<Rightarrow> storm_error + CrossTransactionIndexed list" where
  "db_AllByIndex n f limit reverse =
     (case failure n of
        Some m \<Rightarrow> Inl (ErrBackend m)
      | None \<Rightarrow>
          (let sorted_rows = sort_key (field_ord f) (rows n)
           in Inr (storm_Limit limit (if reverse then rev sorted_rows else sorted_rows))))"

definition db_One :: "node \<Rightarrow> FieldName \<Rightarrow> key \<Rightarrow> storm_error + CrossTransactionIndexed" where
  "db_One n f k =
     (case failure n of
        Some m \<Rightarrow> Inl (ErrBackend m)
      | None \<Rightarrow>
          (case find (\<lambda>r. field_of f r = Some k) (rows n) of
             None \<Rightarrow> Inl ErrNotFound
           | Some r \<Rightarrow> Inr r))"

definition db_Find :: "node \<Rightarrow> FieldName \<Rightarrow> key \<Rightarrow> storm_error + CrossTransactionIndexed list" where
  "db_Find n f k =
     (case failure n of
        Some m \<Rightarrow> Inl (ErrBackend m)
      | None \<Rightarrow> found (filter (\<lambda>r. field_of f r = Some k) (rows n)))"

definition in_range :: "FieldName \<Rightarrow> uint64 \<Rightarrow> uint64 \<Rightarrow> CrossTransactionIndexed \<Rightarrow> bool" where
  "in_range f lo hi r =
     (case field_of f r of Some (KUint64 v) \<Rightarrow> lo \<le> v \<and> v \<le> hi | _ \<Rightarrow> False)"

definition db_Range :: "node \<Rightarrow> FieldName \<Rightarrow> uint64 \<Rightarrow> uint64 \<Rightarrow> int \<Rightarrow> storm_error + CrossTransactionIndexed list" where
  "db_Range n f lo hi limit =
     (case failure n of
        Some m \<Rightarrow> Inl (ErrBackend m)
      | None \<Rightarrow> found (storm_Limit limit (filter (in_range f lo hi) (sort_key (field_ord f) (rows n)))))"

definition db_Save :: "node \<Rightarrow> CrossTransactionIndexed \<Rightarrow> storm_error + node \<times> CrossTransactionIndexed" where
  "db_Save n r =
     (case failure n of
        Some m \<Rightarrow> Inl (ErrBackend m)
      | None \<Rightarrow>
          (if \<exists>x \<in> set (rows n). CtxId x = CtxId r then Inl ErrAlreadyExists
           else (let r' = r\<lparr>PK := seq n + 1\<rparr>
                 in Inr (n\<lparr>rows := rows n @ [r'], seq := seq n + 1\<rparr>, r'))))"

definition db_Update :: "node \<Rightarrow> CrossTransactionIndexed \<Rightarrow> storm_error + node" where
  "db_Update n r =
     (case failure n of
        Some m \<Rightarrow> Inl (ErrBackend m)
      | None \<Rightarrow>
          (if \<not> (\<exists>x \<in> set (rows n). PK x = PK r) then Inl ErrNotFound
           else if \<exists>x \<in> set (rows n). CtxId x = CtxId r \<and> PK x \<noteq> PK r then Inl ErrAlreadyExists
           else Inr (n\<lparr>rows := map (\<lambda>x. if PK x = PK r then r else x) (rows n)\<rparr>)))"

definition db_Drop :: "node \<Rightarrow> storm_error + node" where
  "db_Drop n =
     (case failure n of
        Some m \<Rightarrow> Inl (ErrBackend m)
      | None \<Rightarrow> Inr (n\<lparr>rows := []\<rparr>))"

text \<open>The query builder: \<open>Select\<close>, then \<open>OrderBy\<close>, \<open>Reverse\<close>, \<open>Limit\<close>, \<open>Skip\<close>, then \<open>Find\<close>.\<close>

record query =
  q_filter :: "matcher list"
  q_orderBy :: "FieldName list"
  q_reverse :: bool
  q_limit :: int
  q_skip :: int

definition db_Select :: "matcher list \<Rightarrow> query" where
  "db_Select ms = \<lparr>q_filter = ms, q_orderBy = [], q_reverse = False, q_limit = - 1, q_skip = 0\<rparr>"

definition order_rows :: "FieldName list \<Rightarrow> CrossTransactionIndexed list \<Rightarrow> CrossTransactionIndexed list" where
  "order_rows fs xs = foldr (\<lambda>f acc. sort_key (field_ord f) acc) fs xs"

definition query_Find :: "node \<Rightarrow> query \<Rightarrow> storm_error + CrossTransactionIndexed list" where
  "query_Find n q =
     (case failure n of
        Some m \<Rightarrow> Inl (ErrBackend m)
      | None \<Rightarrow>
          (let hits = order_rows (q_orderBy q) (filter (matches (q_filter q)) (rows n));
               hits = (if q_reverse q then rev hits else hits)
           in found (storm_Limit (q_limit q) (storm_Skip (q_skip q) hits))))"

section \<open>Lookaside cache\<close>

text \<open>
  Modelled from the spec: \<open>IndexDbCache\<close>, whose implementation is missing, is a
  capacity-bounded mapping from (field name, field value) to an owned copy of a record, with
  \<open>Has\<close>, \<open>Get\<close> and \<open>Put\<close>; when full, a \<open>Put\<close> drops the entry put longest ago. The
  entries being copies, a record handed out by \<open>Get\<close> is changed in the cache only by a
  later \<open>Put\<close>.
\<close>

record IndexDbCache =
  entries :: "((FieldName \<times> key) \<times> CrossTransactionIndexed) list"
  capacity :: nat

definition newIndexDbCache :: "int \<Rightarrow> IndexDbCache" where
  "newIndexDbCache n = \<lparr>entries = [], capacity = nat n\<rparr>"

definition cache_Has :: "IndexDbCache \<Rightarrow> FieldName \<Rightarrow> key \<Rightarrow> bool" where
  "cache_Has c f k = (map_of (entries c) (f, k) \<noteq> None)"

definition cache_Get :: "IndexDbCache \<Rightarrow> FieldName \<Rightarrow> key \<Rightarrow> CrossTransactionIndexed option" where
  "cache_Get c f k = map_of (entries c) (f, k)"

definition cache_Put :: "IndexDbCache \<Rightarrow> FieldName \<Rightarrow> key \<Rightarrow> CrossTransactionIndexed \<Rightarrow> IndexDbCache" where
  "cache_Put c f k r =
     c\<lparr>entries := take (capacity c) (((f, k), r) # filter (\<lambda>e. fst e \<noteq> (f, k)) (entries c))\<rparr>"

section \<open>The store\<close>

record indexDB =
  chainID :: int
  db :: node
  cache :: "IndexDbCache option"

definition NewIndexDB :: "int \<Rightarrow> node \<Rightarrow> uint64 \<Rightarrow> indexDB" where
  "NewIndexDB cid rootDB cacheSize =
     \<lparr>chainID = cid, db = rootDB, cache = Some (newIndexDbCache (wrap_int (uint cacheSize)))\<rparr>"

text \<open>
  The methods of \<open>indexDB\<close> follow, each taking the store and returning it where the method
  may change the cache or the backend. The source's \<open>One\<close> and \<open>Range\<close> are \<open>One'\<close> and
  \<open>Range'\<close> here, the plain names being constants of HOL.
\<close>

text \<open>\<open>d.cache != nil && d.cache.Has(field, key)\<close>, then \<open>d.cache.Get(field, key)\<close>.\<close>

definition cache_hit :: "indexDB \<Rightarrow> FieldName \<Rightarrow> key \<Rightarrow> CrossTransactionIndexed option" where
  "cache_hit d f k =
     (case cache d of
        None \<Rightarrow> None
      | Some c \<Rightarrow> if cache_Has c f k then cache_Get c f k else None)"

text \<open>\<open>if d.cache != nil { d.cache.Put(field, key, ctx) }\<close>\<close>

definition cache_put :: "indexDB \<Rightarrow> FieldName \<Rightarrow> key \<Rightarrow> CrossTransactionIndexed \<Rightarrow> indexDB" where
  "cache_put d f k r =
     (case cache d of
        None \<Rightarrow> d
      | Some c \<Rightarrow> d\<lparr>cache := Some (cache_Put c f k r)\<rparr>)"

definition Count :: "indexDB \<Rightarrow> matcher list \<Rightarrow> int" where
  "Count d ms = fst (db_Count (db d) ms)"

definition Height :: "indexDB \<Rightarrow> uint64" where
  "Height d =
     (case db_AllByIndex (db d) BlockNumField 1 True of
        Inl err \<Rightarrow> 0
      | Inr ctxs \<Rightarrow> (case ctxs of [] \<Rightarrow> 0 | c # _ \<Rightarrow> BlockNum c))"

definition get :: "indexDB \<Rightarrow> hash \<Rightarrow> indexDB \<times> (ErrCtxDbFailure + CrossTransactionIndexed)" where
  "get d ctxId =
     (case cache_hit d CtxIdIndex (KHash ctxId) of
        Some ctx \<Rightarrow> (d, Inr ctx)
      | None \<Rightarrow>
          (case db_One (db d) CtxIdIndex (KHash ctxId) of
             Inl err \<Rightarrow> (d, Inl (ErrCtxDbFailure (''get ctx:%s failed'', [ctxId]) (StormErr err)))
           | Inr ctx \<Rightarrow> (cache_put d CtxIdIndex (KHash ctxId) ctx, Inr ctx)))"

definition Write :: "indexDB \<Rightarrow> CrossTransactionWithSignatures \<Rightarrow> indexDB \<times> ErrCtxDbFailure option" where
  "Write d ctx =
     (case get d (ctx_ID ctx) of
        (d1, Inr old) \<Rightarrow>
          (if BlockHash old \<noteq> ctx_BlockHash ctx
           then (d1, Some (ErrCtxDbFailure ('''', [])
                   (Errorf ''blockchain reorg, txID:%s, old:%s, new:%s''
                      [ctx_ID ctx, BlockHash old, ctx_BlockHash ctx])))
           else (d1, None))
      | (d1, Inl _) \<Rightarrow>
          (let persist = NewCrossTransactionIndexed ctx
           in case db_Save (db d1) persist of
                Inl err \<Rightarrow> (d1, Some (ErrCtxDbFailure (''Write:%s save fail'', [ctx_ID ctx]) (StormErr err)))
              | Inr (n', persist') \<Rightarrow>
                  (cache_put (d1\<lparr>db := n'\<rparr>) CtxIdIndex (KHash (ctx_ID ctx)) persist', None)))"

definition Read :: "indexDB \<Rightarrow> hash \<Rightarrow> indexDB \<times> (ErrCtxDbFailure + CrossTransactionWithSignatures)" where
  "Read d ctxId =
     (case get d ctxId of
        (d1, Inl err) \<Rightarrow> (d1, Inl err)
      | (d1, Inr ctx) \<Rightarrow> (d1, Inr (ToCrossTransaction ctx)))"

definition One' :: "indexDB \<Rightarrow> FieldName \<Rightarrow> key \<Rightarrow> indexDB \<times> CrossTransactionWithSignatures option" where
  "One' d field k =
     (case cache_hit d field k of
        Some ctx \<Rightarrow> (d, Some (ToCrossTransaction ctx))
      | None \<Rightarrow>
          (case db_One (db d) field k of
             Inl err \<Rightarrow> (d, None)
           | Inr ctx \<Rightarrow> (cache_put d field k ctx, Some (ToCrossTransaction ctx))))"

definition Update :: "indexDB \<Rightarrow> hash \<Rightarrow> (CrossTransactionIndexed \<Rightarrow> CrossTransactionIndexed) \<Rightarrow> indexDB \<times> ErrCtxDbFailure option" where
  "Update d ctxId updater =
     (case get d ctxId of
        (d1, Inl err) \<Rightarrow> (d1, Some err)
      | (d1, Inr ctx) \<Rightarrow>
          (let ctx' = updater ctx
           in case db_Update (db d1) ctx' of
                Inl err \<Rightarrow> (d1, Some (ErrCtxDbFailure (''Update save fail'', []) (StormErr err)))
              | Inr n' \<Rightarrow> (cache_put (d1\<lparr>db := n'\<rparr>) CtxIdIndex (KHash ctxId) ctx', None)))"

definition Has :: "indexDB \<Rightarrow> hash \<Rightarrow> indexDB \<times> bool" where
  "Has d ctxId = (case get d ctxId of (d1, Inl err) \<Rightarrow> (d1, False) | (d1, Inr _) \<Rightarrow> (d1, True))"

text \<open>\<open>Clean\<close> drops the records of the backend; it does not touch the cache.\<close>

definition Clean :: "indexDB \<Rightarrow> indexDB \<times> storm_error option" where
  "Clean d =
     (case db_Drop (db d) of
        Inl err \<Rightarrow> (d, Some err)
      | Inr n' \<Rightarrow> (d\<lparr>db := n'\<rparr>, None))"

definition MaxUint64 :: uint64 where
  "MaxUint64 = 18446744073709551615"

definition Range' :: "indexDB \<Rightarrow> int \<Rightarrow> hash option \<Rightarrow> hash option \<Rightarrow> indexDB \<times> CrossTransactionWithSignatures list" where
  "Range' d pageSize startCtxID endCtxID =
     (case (case startCtxID of
              None \<Rightarrow> (d, Inr 0)
            | Some a \<Rightarrow>
                (case get d a of
                   (d1, Inl err) \<Rightarrow> (d1, Inl err)
                 | (d1, Inr start) \<Rightarrow> (d1, Inr (PK start + 1)))) of
        (d1, Inl err) \<Rightarrow> (d1, [])
      | (d1, Inr minPK) \<Rightarrow>
          (case (case endCtxID of
                   None \<Rightarrow> (d1, Inr MaxUint64)
                 | Some b \<Rightarrow>
                     (case get d1 b of
                        (d2, Inl err) \<Rightarrow> (d2, Inl err)
                      | (d2, Inr end) \<Rightarrow> (d2, Inr (PK end)))) of
             (d2, Inl err) \<Rightarrow> (d2, [])
           | (d2, Inr maxPK) \<Rightarrow>
               (case db_Range (db d2) PKField minPK maxPK pageSize of
                  Inl err \<Rightarrow> (d2, [])
                | Inr list \<Rightarrow> (d2, map ToCrossTransaction list))))"

definition Query :: "indexDB \<Rightarrow> int \<Rightarrow> int \<Rightarrow> FieldName list \<Rightarrow> bool \<Rightarrow> matcher list \<Rightarrow> CrossTransactionWithSignatures list" where
  "Query d pageSize startPage orderBy reverse ms =
     (if pageSize > 0 \<and> startPage \<le> 0 then []
      else
        (let query = db_Select ms;
             query = (if length orderBy > 0 then query\<lparr>q_orderBy := orderBy\<rparr> else query);
             query = (if reverse then query\<lparr>q_reverse := True\<rparr> else query);
             query = (if pageSize > 0
                      then query\<lparr>q_limit := pageSize,
                                  q_skip := wrap_int (pageSize * wrap_int (startPage - 1))\<rparr>
                      else query);
             ctxs = (case query_Find (db d) query of Inl err \<Rightarrow> [] | Inr xs \<Rightarrow> xs)
         in map ToCrossTransaction ctxs))"

text \<open>
  The loop of \<open>RangeByNumber\<close>: cut the window at the first record whose height is that of
  the last record.
\<close>

fun cut_at :: "uint64 \<Rightarrow> CrossTransactionIndexed list \<Rightarrow> CrossTransactionIndexed list" where
  "cut_at h [] = []"
| "cut_at h (tx # rest) = (if BlockNum tx = h then [] else tx # cut_at h rest)"

definition RangeByNumber :: "indexDB \<Rightarrow> uint64 \<Rightarrow> uint64 \<Rightarrow> int \<Rightarrow> CrossTransactionWithSignatures list" where
  "RangeByNumber d begin end pageSize =
     (let ctxs = (case db_Range (db d) BlockNumField begin end pageSize of Inl err \<Rightarrow> [] | Inr xs \<Rightarrow> xs)
      in if ctxs = [] then []
         else
           (let lasts = (case db_Find (db d) BlockNumField (KUint64 (BlockNum (last ctxs))) of
                           Inl err \<Rightarrow> []
                         | Inr xs \<Rightarrow> xs);
                ctxs = cut_at (BlockNum (last ctxs)) ctxs;
                ctxs = ctxs @ lasts
            in map ToCrossTransaction ctxs))"

section \<open>Store invariant\<close>

text \<open>
  The state a store is in when it was built by \<open>NewIndexDB\<close> over an empty namespace and
  changed by \<open>Write\<close> and by \<open>Update\<close> with updaters that keep the identity fields: the
  backend is healthy, \<open>CtxId\<close> and \<open>PK\<close> are unique among the records, every key was
  assigned from the sequence, which is not exhausted, and every cache entry under \<open>CtxId\<close>
  is the stored record of that identity.
\<close>

definition cache_coherent :: "indexDB \<Rightarrow> bool" where
  "cache_coherent d =
     (case cache d of
        None \<Rightarrow> True
      | Some c \<Rightarrow>
          list_all (\<lambda>e. fst (fst e) = CtxIdIndex \<longrightarrow>
                         snd e \<in> set (rows (db d)) \<and> snd (fst e) = KHash (CtxId (snd e)))
            (entries c))"

definition wf_store :: "indexDB \<Rightarrow> bool" where
  "wf_store d =
     (failure (db d) = None \<and> distinct (map CtxId (rows (db d))) \<and>
      distinct (map PK (rows (db d))) \<and> list_all (\<lambda>r. PK r \<le> seq (db d)) (rows (db d)) \<and>
      seq (db d) \<noteq> MaxUint64 \<and> cache_coherent d)"

text \<open>
  The scan of \<open>Range'\<close> in the words of the specification, to compare the source with:
  ascending by \<open>PK\<close> within \<open>[lo, hi]\<close>, up to a page size; a negative page size is no
  bound.
\<close>

definition spec_pk_scan :: "node \<Rightarrow> uint64 \<Rightarrow> uint64 \<Rightarrow> int \<Rightarrow> CrossTransactionIndexed list" where
  "spec_pk_scan n lo hi pageSize =
     (let hits = filter (\<lambda>r. lo \<le> PK r \<and> PK r \<le> hi) (sort_key PK (rows n))
      in if pageSize < 0 then hits else take (nat pageSize) hits)"

section \<open>Example stores\<close>

definition ex_rec :: "uint64 \<Rightarrow> hash \<Rightarrow> hash \<Rightarrow> uint64 \<Rightarrow> CrossTransactionIndexed" where
  "ex_rec pk cid bh bn =
     \<lparr>PK = pk, CtxId = cid, BlockHash = bh, BlockNum = bn, TxHash = 0, Price = 0, Status = 0,
      From = 0, DestinationValue = 0, Payload = []\<rparr>"

definition ex_ctx :: "hash \<Rightarrow> hash \<Rightarrow> uint64 \<Rightarrow> CrossTransactionWithSignatures" where
  "ex_ctx cid bh bn =
     \<lparr>ctx_ID = cid, ctx_BlockHash = bh, ctx_BlockNum = bn, ctx_TxHash = 0, ctx_Price = 0,
      ctx_Status = 0, ctx_From = 0, ctx_DestinationValue = 0, ctx_Payload = []\<rparr>"

definition empty_node :: node where
  "empty_node = \<lparr>rows = [], seq = 0, failure = None\<rparr>"

text \<open>Three records, written at heights 5, 9 and 3; the first one is cached.\<close>

definition ex_store :: indexDB where
  "ex_store =
     \<lparr>chainID = 1,
      db = \<lparr>rows = [ex_rec 1 1 10 5, ex_rec 2 2 11 9, ex_rec 3 3 12 3], seq = 3, failure = None\<rparr>,
      cache = Some \<lparr>entries = [((CtxIdIndex, KHash 1), ex_rec 1 1 10 5)], capacity = 8\<rparr>\<rparr>"

text \<open>Six records at heights 5, 5, 7, 7, 7 and 9, no cache.\<close>

definition ex_heights :: indexDB where
  "ex_heights =
     \<lparr>chainID = 1,
      db = \<lparr>rows = [ex_rec 1 1 10 5, ex_rec 2 2 10 5, ex_rec 3 3 11 7, ex_rec 4 4 11 7,
                   ex_rec 5 5 11 7, ex_rec 6 6 12 9], seq = 6, failure = None\<rparr>,
      cache = None\<rparr>"

text \<open>Two updaters: one within the contract of \<open>Update\<close>, one that rewrites the identity.\<close>

definition ex_set_status :: "CrossTransactionIndexed \<Rightarrow> CrossTransactionIndexed" where
  "ex_set_status r = r\<lparr>Status := 2\<rparr>"

definition ex_rewrite_id :: "CrossTransactionIndexed \<Rightarrow> CrossTransactionIndexed" where
  "ex_rewrite_id r = r\<lparr>CtxId := 7\<rparr>"

text \<open>
  A store with a stale cache entry, reached within the contract: the record of height 9 is
  looked up by its height, which caches it under that height, and is then moved to height 4
  by an \<open>Update\<close> that keeps its identity.
\<close>

definition ex_set_height :: "CrossTransactionIndexed \<Rightarrow> CrossTransactionIndexed" where
  "ex_set_height r = r\<lparr>BlockNum := 4\<rparr>"

definition ex_stale :: indexDB where
  "ex_stale = fst (Update (fst (One' ex_store BlockNumField (KUint64 9))) 2 ex_set_height)"

text \<open>A store written to once and then cleaned: the backend is empty, the cache is not.\<close>

definition ex_cleaned :: indexDB where
  "ex_cleaned = fst (Clean (fst (Write (NewIndexDB 1 empty_node 8) (ex_ctx 1 10 5))))"

section \<open>Basic facts\<close>

lemmas FieldName_defs = PKField_def CtxIdIndex_def TxHashIndex_def PriceIndex_def
  StatusField_def FromField_def DestinationValueField_def BlockNumField_def

lemma ToCrossTransaction_New: "ToCrossTransaction (NewCrossTransactionIndexed ctx) = ctx"
  by (simp add: ToCrossTransaction_def NewCrossTransactionIndexed_def)

lemma field_of_CtxIdIndex: "field_of CtxIdIndex r = Some (KHash (CtxId r))"
  by (simp add: field_of_def FieldName_defs)

lemma field_of_PKField: "field_of PKField r = Some (KUint64 (PK r))"
  by (simp add: field_of_def FieldName_defs)

lemma field_of_BlockNumField: "field_of BlockNumField r = Some (KUint64 (BlockNum r))"
  by (simp add: field_of_def FieldName_defs)

lemma field_ord_PKField: "field_ord PKField r = uint (PK r)"
  by (simp add: field_ord_def field_of_PKField)

lemma field_ord_BlockNumField: "field_ord BlockNumField r = uint (BlockNum r)"
  by (simp add: field_ord_def field_of_BlockNumField)

lemma find_distinct_key:
  "distinct (map f xs) \<Longrightarrow> r \<in> set xs \<Longrightarrow> find (\<lambda>x. f x = f r) xs = Some r"
  by (induction xs) (auto simp: image_iff)

lemma find_absent_key: "k \<notin> f ` set xs \<Longrightarrow> find (\<lambda>x. f x = k) xs = None"
  by (induction xs) auto

lemma db_One_stored:
  "failure n = None \<Longrightarrow> distinct (map CtxId (rows n)) \<Longrightarrow> r \<in> set (rows n) \<Longrightarrow>
   db_One n CtxIdIndex (KHash (CtxId r)) = Inr r"
  by (simp add: db_One_def field_of_CtxIdIndex find_distinct_key)

lemma db_One_absent:
  "failure n = None \<Longrightarrow> c \<notin> CtxId ` set (rows n) \<Longrightarrow>
   db_One n CtxIdIndex (KHash c) = Inl ErrNotFound"
  by (simp add: db_One_def field_of_CtxIdIndex find_absent_key)

lemma cache_hit_entry:
  "cache_hit d f k = Some r \<Longrightarrow> \<exists>c. cache d = Some c \<and> ((f, k), r) \<in> set (entries c)"
  by (auto simp: cache_hit_def cache_Get_def split: option.splits if_splits dest: map_of_SomeD)

lemma coherent_hit:
  "cache_coherent d \<Longrightarrow> cache_hit d CtxIdIndex (KHash c) = Some r \<Longrightarrow>
   r \<in> set (rows (db d)) \<and> CtxId r = c"
proof -
  assume coh: "cache_coherent d" and hit: "cache_hit d CtxIdIndex (KHash c) = Some r"
  from hit obtain ca where ca: "cache d = Some ca" and mem: "((CtxIdIndex, KHash c), r) \<in> set (entries ca)"
    using cache_hit_entry by blast
  from coh ca mem have "fst (fst ((CtxIdIndex, KHash c), r)) = CtxIdIndex \<longrightarrow>
      snd ((CtxIdIndex, KHash c), r) \<in> set (rows (db d)) \<and>
      snd (fst ((CtxIdIndex, KHash c), r)) = KHash (CtxId (snd ((CtxIdIndex, KHash c), r)))"
    unfolding cache_coherent_def list_all_iff by (simp only: option.case) blast
  then show ?thesis by simp
qed

lemma db_get: "db (fst (get d c)) = db d"
  by (simp add: get_def cache_put_def split: option.splits sum.splits)


lemma wf_get_stored:
  assumes "wf_store d" and "r \<in> set (rows (db d))"
  shows "snd (get d (CtxId r)) = Inr r"
proof (cases "cache_hit d CtxIdIndex (KHash (CtxId r))")
  case None
  with assms show ?thesis
    by (simp add: get_def wf_store_def db_One_stored)
next
  case (Some r')
  with assms have "r' \<in> set (rows (db d))" and "CtxId r' = CtxId r"
    using coherent_hit [of d "CtxId r" r'] by (simp_all add: wf_store_def)
  with assms have "r' = r"
    by (auto simp: wf_store_def distinct_map inj_on_def)
  with Some show ?thesis
    by (simp add: get_def)
qed

lemma wf_get_absent:
  assumes "wf_store d" and "c \<notin> CtxId ` set (rows (db d))"
  shows "get d c = (d, Inl (ErrCtxDbFailure (''get ctx:%s failed'', [c]) (StormErr ErrNotFound)))"
proof (cases "cache_hit d CtxIdIndex (KHash c)")
  case None
  with assms show ?thesis
    by (simp add: get_def wf_store_def db_One_absent)
next
  case (Some r')
  with assms have False
    using coherent_hit [of d c r'] by (auto simp: wf_store_def)
  then show ?thesis ..
qed

lemma coherent_cache_put:
  assumes "cache_coherent d" and "f = CtxIdIndex \<longrightarrow> r \<in> set (rows (db d)) \<and> k = KHash (CtxId r)"
  shows "cache_coherent (cache_put d f k r)"
proof (cases "cache d")
  case None
  with assms show ?thesis by (simp add: cache_put_def)
next
  case (Some c)
  have "set (entries (cache_Put c f k r)) \<subseteq> insert ((f, k), r) (set (entries c))"
    by (auto simp: cache_Put_def dest: in_set_takeD)
  with assms Some show ?thesis
    by (auto simp: cache_coherent_def cache_put_def list_all_iff)
qed

lemma db_cache_put: "db (cache_put d f k r) = db d"
  by (simp add: cache_put_def split: option.splits)

lemma wf_cache_put:
  "wf_store d \<Longrightarrow> f = CtxIdIndex \<longrightarrow> r \<in> set (rows (db d)) \<and> k = KHash (CtxId r) \<Longrightarrow>
   wf_store (cache_put d f k r)"
  by (simp add: wf_store_def db_cache_put coherent_cache_put)

lemma db_One_hit:
  "db_One n f k = Inr r \<Longrightarrow> r \<in> set (rows n) \<and> field_of f r = Some k"
  by (auto simp: db_One_def find_Some_iff split: option.splits)

lemma wf_get: "wf_store d \<Longrightarrow> wf_store (fst (get d c))"
  by (auto simp: get_def field_of_CtxIdIndex split: option.splits sum.splits
      dest!: db_One_hit intro!: wf_cache_put)

section \<open>Writing\<close>

lemma cache_hit_put_same:
  "cache_hit (cache_put d f k r) f k =
     (case cache d of None \<Rightarrow> None | Some c \<Rightarrow> if capacity c = 0 then None else Some r)"
proof (cases "cache d")
  case None
  then show ?thesis by (simp add: cache_hit_def cache_put_def)
next
  case (Some c)
  show ?thesis
  proof (cases "capacity c")
    case 0
    with Some show ?thesis
      by (simp add: cache_hit_def cache_put_def cache_Put_def cache_Has_def)
  next
    case (Suc m)
    with Some show ?thesis
      by (simp add: cache_hit_def cache_put_def cache_Put_def cache_Has_def cache_Get_def)
  qed
qed



lemma Write_found:
  "snd (get d (ctx_ID ctx)) = Inr old \<Longrightarrow>
   Write d ctx =
     (fst (get d (ctx_ID ctx)),
      if BlockHash old \<noteq> ctx_BlockHash ctx
      then Some (ReorgConflict (ctx_ID ctx) (BlockHash old) (ctx_BlockHash ctx)) else None)"
  by (cases "get d (ctx_ID ctx)") (simp add: Write_def ReorgConflict_def)







lemma Read_get: "snd (Read d c) = map_sum id ToCrossTransaction (snd (get d c))"
  by (cases "get d c") (simp add: Read_def split: sum.splits)

section \<open>Writing twice\<close>


lemma Write_fresh:
  assumes "wf_store d" and "ctx_ID ctx \<notin> CtxId ` set (rows (db d))"
  shows "Write d ctx =
           (cache_put (d\<lparr>db := (db d)\<lparr>rows := rows (db d) @ [(NewCrossTransactionIndexed ctx)\<lparr>PK := seq (db d) + 1\<rparr>],
                                      seq := seq (db d) + 1\<rparr>\<rparr>)
              CtxIdIndex (KHash (ctx_ID ctx)) ((NewCrossTransactionIndexed ctx)\<lparr>PK := seq (db d) + 1\<rparr>), None)"
proof -
  have g: "get d (ctx_ID ctx) = (d, Inl (ErrCtxDbFailure (''get ctx:%s failed'', [ctx_ID ctx]) (StormErr ErrNotFound)))"
    using assms by (rule wf_get_absent)
  have id: "CtxId (NewCrossTransactionIndexed ctx) = ctx_ID ctx"
    by (simp add: NewCrossTransactionIndexed_def)
  have nx: "\<not> (\<exists>x \<in> set (rows (db d)). CtxId x = ctx_ID ctx)"
    using assms(2) by (auto simp: image_iff)
  have f: "failure (db d) = None"
    using assms(1) by (simp add: wf_store_def)
  have "db_Save (db d) (NewCrossTransactionIndexed ctx) =
      Inr ((db d)\<lparr>rows := rows (db d) @ [(NewCrossTransactionIndexed ctx)\<lparr>PK := seq (db d) + 1\<rparr>],
                   seq := seq (db d) + 1\<rparr>, (NewCrossTransactionIndexed ctx)\<lparr>PK := seq (db d) + 1\<rparr>)"
    using nx f by (simp add: db_Save_def id Let_def)
  with g show ?thesis
    by (simp add: Write_def)
qed


lemma MaxUint64_max: "MaxUint64 = - 1"
  by (simp add: MaxUint64_def)

lemma le_MaxUint64: "x \<le> MaxUint64"
  by (simp add: MaxUint64_max)

lemma word_succ_gt: "(s::uint64) \<noteq> MaxUint64 \<Longrightarrow> x \<le> s \<Longrightarrow> x < s + 1"
proof -
  assume "s \<noteq> MaxUint64" and le: "x \<le> s"
  then have "\<not> s + 1 \<le> s"
    by (simp add: inc_less_eq_self_iff_eq MaxUint64_max)
  then have "s < s + 1" by simp
  with le show ?thesis by simp
qed

lemma wf_Write:
  assumes "wf_store d" and "seq (db d) + 1 \<noteq> MaxUint64"
  shows "wf_store (fst (Write d ctx))"
proof (cases "ctx_ID ctx \<in> CtxId ` set (rows (db d))")
  case True
  then obtain r where r: "r \<in> set (rows (db d))" "CtxId r = ctx_ID ctx" by auto
  with assms(1) have "snd (get d (ctx_ID ctx)) = Inr r"
    using wf_get_stored [of d r] by simp
  then have "fst (Write d ctx) = fst (get d (ctx_ID ctx))"
    by (simp add: Write_found)
  with assms(1) show ?thesis by (simp add: wf_get)
next
  case False
  define p where "p = (NewCrossTransactionIndexed ctx)\<lparr>PK := seq (db d) + 1\<rparr>"
  define d' where "d' = d\<lparr>db := (db d)\<lparr>rows := rows (db d) @ [p], seq := seq (db d) + 1\<rparr>\<rparr>"
  have w: "fst (Write d ctx) = cache_put d' CtxIdIndex (KHash (ctx_ID ctx)) p"
    using assms(1) False by (simp add: Write_fresh p_def d'_def)
  have id: "CtxId p = ctx_ID ctx" and pk: "PK p = seq (db d) + 1"
    by (simp_all add: p_def NewCrossTransactionIndexed_def)
  have lt: "\<forall>r \<in> set (rows (db d)). PK r < seq (db d) + 1"
    using assms by (auto simp: wf_store_def list_all_iff intro: word_succ_gt)
  have "cache_coherent d'"
    using assms(1) by (auto simp: wf_store_def cache_coherent_def d'_def list_all_iff split: option.splits)
  moreover have "distinct (map PK (rows (db d')))"
    using assms(1) lt by (auto simp: wf_store_def d'_def pk)
  moreover have "distinct (map CtxId (rows (db d')))"
    using assms(1) False by (auto simp: wf_store_def d'_def id)
  moreover have "list_all (\<lambda>r. PK r \<le> seq (db d')) (rows (db d'))"
    using lt by (auto simp: d'_def list_all_iff pk intro: less_imp_le)
  moreover have "failure (db d') = None"
    using assms(1) by (simp add: wf_store_def d'_def)
  moreover have "seq (db d') \<noteq> MaxUint64"
    using assms(2) by (simp add: d'_def)
  ultimately have "wf_store d'"
    by (simp add: wf_store_def)
  moreover have "p \<in> set (rows (db d'))"
    by (simp add: d'_def)
  ultimately show ?thesis
    unfolding w by (intro wf_cache_put) (simp_all add: id)
qed

lemma wf_NewIndexDB: "wf_store (NewIndexDB cid empty_node sz)"
  by (simp add: wf_store_def NewIndexDB_def empty_node_def cache_coherent_def newIndexDbCache_def
      MaxUint64_def)



section \<open>Required lookups\<close>

lemma Read_of_get: "get d c = (d1, res) \<Longrightarrow> Read d c = (d1, map_sum id ToCrossTransaction res)"
  by (cases res) (simp_all add: Read_def)

lemma Update_get_fails: "get d c = (d1, Inl err) \<Longrightarrow> Update d c updater = (d1, Some err)"
  by (simp add: Update_def)

lemma get_miss_failure:
  "failure (db d) = Some m \<Longrightarrow> cache_hit d CtxIdIndex (KHash c) = None \<Longrightarrow>
   get d c = (d, Inl (ErrCtxDbFailure (''get ctx:%s failed'', [c]) (StormErr (ErrBackend m))))"
  by (simp add: get_def db_One_def)

lemma get_cached: "cache_hit d CtxIdIndex (KHash c) = Some r \<Longrightarrow> get d c = (d, Inr r)"
  by (simp add: get_def)

text \<open>
  Claim C7, amended. The lookup by identity asks the cache first. For a \<open>CtxId\<close> that no
  record of a healthy backend has and that is not cached, and so for every \<open>CtxId\<close> that no
  record of a well-formed store has, \<open>Read\<close> fails with the error of \<open>get\<close> that wraps the
  backend's \<open>ErrNotFound\<close>, and \<open>Update\<close> fails with the same error and leaves the whole
  store as it was, whatever the updater. A fault of the backend comes in the same
  \<open>ErrCtxDbFailure\<close> with the same message and differs in the wrapped cause only. A cached
  \<open>CtxId\<close> is answered from the cache.
\<close>

theorem NotFound_on_absent:
  "(failure (db d) = None \<and> c \<notin> CtxId ` set (rows (db d)) \<and>
    cache_hit d CtxIdIndex (KHash c) = None \<longrightarrow>
      Read d c = (d, Inl (ErrCtxDbFailure (''get ctx:%s failed'', [c]) (StormErr ErrNotFound))) \<and>
      Update d c updater =
        (d, Some (ErrCtxDbFailure (''get ctx:%s failed'', [c]) (StormErr ErrNotFound)))) \<and>
   (wf_store d \<and> c \<notin> CtxId ` set (rows (db d)) \<longrightarrow>
      Read d c = (d, Inl (ErrCtxDbFailure (''get ctx:%s failed'', [c]) (StormErr ErrNotFound))) \<and>
      Update d c updater =
        (d, Some (ErrCtxDbFailure (''get ctx:%s failed'', [c]) (StormErr ErrNotFound)))) \<and>
   (failure (db d) = Some m \<and> cache_hit d CtxIdIndex (KHash c) = None \<longrightarrow>
      Read d c = (d, Inl (ErrCtxDbFailure (''get ctx:%s failed'', [c]) (StormErr (ErrBackend m)))) \<and>
      Update d c updater =
        (d, Some (ErrCtxDbFailure (''get ctx:%s failed'', [c]) (StormErr (ErrBackend m))))) \<and>
   (cache_hit d CtxIdIndex (KHash c) = Some r \<longrightarrow> Read d c = (d, Inr (ToCrossTransaction r)))"
proof (intro conjI impI)
  assume a: "failure (db d) = None \<and> c \<notin> CtxId ` set (rows (db d)) \<and>
    cache_hit d CtxIdIndex (KHash c) = None"
  then have g: "get d c = (d, Inl (ErrCtxDbFailure (''get ctx:%s failed'', [c]) (StormErr ErrNotFound)))"
    by (simp add: get_def db_One_absent)
  from g show "Read d c = (d, Inl (ErrCtxDbFailure (''get ctx:%s failed'', [c]) (StormErr ErrNotFound)))"
    by (simp add: Read_of_get)
  from g show "Update d c updater =
      (d, Some (ErrCtxDbFailure (''get ctx:%s failed'', [c]) (StormErr ErrNotFound)))"
    by (rule Update_get_fails)
next
  assume a: "wf_store d \<and> c \<notin> CtxId ` set (rows (db d))"
  then have g: "get d c = (d, Inl (ErrCtxDbFailure (''get ctx:%s failed'', [c]) (StormErr ErrNotFound)))"
    by (simp add: wf_get_absent)
  from g show "Read d c = (d, Inl (ErrCtxDbFailure (''get ctx:%s failed'', [c]) (StormErr ErrNotFound)))"
    by (simp add: Read_of_get)
  from g show "Update d c updater =
      (d, Some (ErrCtxDbFailure (''get ctx:%s failed'', [c]) (StormErr ErrNotFound)))"
    by (rule Update_get_fails)
next
  assume a: "failure (db d) = Some m \<and> cache_hit d CtxIdIndex (KHash c) = None"
  then have g: "get d c = (d, Inl (ErrCtxDbFailure (''get ctx:%s failed'', [c]) (StormErr (ErrBackend m))))"
    by (simp add: get_miss_failure)
  from g show "Read d c = (d, Inl (ErrCtxDbFailure (''get ctx:%s failed'', [c]) (StormErr (ErrBackend m))))"
    by (simp add: Read_of_get)
  from g show "Update d c updater =
      (d, Some (ErrCtxDbFailure (''get ctx:%s failed'', [c]) (StormErr (ErrBackend m))))"
    by (rule Update_get_fails)
next
  assume "cache_hit d CtxIdIndex (KHash c) = Some r"
  then have "get d c = (d, Inr r)" by (rule get_cached)
  then show "Read d c = (d, Inr (ToCrossTransaction r))"
    by (simp add: Read_of_get)
qed

theorem NotFound_on_absent_witness:
  "failure (db ex_store) = None \<and> 9 \<notin> CtxId ` set (rows (db ex_store)) \<and>
   cache_hit ex_store CtxIdIndex (KHash 9) = None \<and> wf_store ex_store \<and>
   Read ex_store 9 = (ex_store, Inl (ErrCtxDbFailure (''get ctx:%s failed'', [9]) (StormErr ErrNotFound))) \<and>
   Update ex_store 9 ex_set_status =
     (ex_store, Some (ErrCtxDbFailure (''get ctx:%s failed'', [9]) (StormErr ErrNotFound))) \<and>
   cache_hit ex_store CtxIdIndex (KHash 1) = Some (ex_rec 1 1 10 5) \<and>
   Read ex_store 1 = (ex_store, Inr (ex_ctx 1 10 5)) \<and>
   failure (db (ex_store\<lparr>db := (db ex_store)\<lparr>failure := Some ''database not open''\<rparr>\<rparr>)) =
     Some ''database not open'' \<and>
   snd (Read (ex_store\<lparr>db := (db ex_store)\<lparr>failure := Some ''database not open''\<rparr>\<rparr>) 9) =
     Inl (ErrCtxDbFailure (''get ctx:%s failed'', [9]) (StormErr (ErrBackend ''database not open'')))"
proof -
  let ?f = "ex_store\<lparr>db := (db ex_store)\<lparr>failure := Some ''database not open''\<rparr>\<rparr>"
  have h1: "failure (db ex_store) = None" by (simp add: ex_store_def)
  have h2: "9 \<notin> CtxId ` set (rows (db ex_store))" by (simp add: ex_store_def ex_rec_def)
  have h3: "cache_hit ex_store CtxIdIndex (KHash 9) = None"
    by (simp add: ex_store_def cache_hit_def cache_Has_def)
  have h4: "wf_store ex_store" by code_simp
  have h5: "cache_hit ex_store CtxIdIndex (KHash 1) = Some (ex_rec 1 1 10 5)" by code_simp
  have h6: "failure (db ?f) = Some ''database not open''" by simp
  have h7: "cache_hit ?f CtxIdIndex (KHash 9) = None"
    by (simp add: ex_store_def cache_hit_def cache_Has_def)
  have t: "ToCrossTransaction (ex_rec 1 1 10 5) = ex_ctx 1 10 5" by code_simp
  from h1 h2 h3 NotFound_on_absent [of ex_store 9 ex_set_status undefined undefined]
  have a: "Read ex_store 9 = (ex_store, Inl (ErrCtxDbFailure (''get ctx:%s failed'', [9]) (StormErr ErrNotFound))) \<and>
      Update ex_store 9 ex_set_status =
        (ex_store, Some (ErrCtxDbFailure (''get ctx:%s failed'', [9]) (StormErr ErrNotFound)))"
    by blast
  from h5 NotFound_on_absent [of ex_store 1 undefined undefined "ex_rec 1 1 10 5"]
  have "Read ex_store 1 = (ex_store, Inr (ToCrossTransaction (ex_rec 1 1 10 5)))"
    by blast
  then have b: "Read ex_store 1 = (ex_store, Inr (ex_ctx 1 10 5))"
    by (simp only: t)
  from h6 h7 NotFound_on_absent [of ?f 9 undefined "''database not open''" undefined]
  have "Read ?f 9 = (?f, Inl (ErrCtxDbFailure (''get ctx:%s failed'', [9]) (StormErr (ErrBackend ''database not open''))))"
    by blast
  then have c: "snd (Read ?f 9) =
      Inl (ErrCtxDbFailure (''get ctx:%s failed'', [9]) (StormErr (ErrBackend ''database not open'')))"
    by simp
  from h1 h2 h3 h4 h5 h6 a b c show ?thesis by blast
qed

text \<open>
  The claim as it stands fails on an identity that the backend has lost and the cache still
  holds: after one \<open>Write\<close> to a new store and a \<open>Clean\<close>, no record has the identity, and
  \<open>Read\<close> returns the cached record instead of failing.
\<close>

theorem Read_after_Clean_succeeds:
  "rows (db ex_cleaned) = [] \<and> failure (db ex_cleaned) = None \<and>
   snd (Read ex_cleaned 1) = Inr (ex_ctx 1 10 5)"
  by code_simp

section \<open>Backend failure\<close>

text \<open>
  Claim C10. When the backend fails, \<open>Count\<close> returns 0 under every filter and \<open>Height\<close>
  returns 0, the error being dropped: exactly what both return on an empty, healthy store.
\<close>

theorem failure_looks_empty:
  assumes "failure (db d) = Some m"
  shows "Count d ms = 0 \<and> Height d = 0 \<and>
         Count d ms = Count (d\<lparr>db := empty_node\<rparr>) ms \<and> Height d = Height (d\<lparr>db := empty_node\<rparr>)"
  using assms
  by (simp add: Count_def db_Count_def Height_def db_AllByIndex_def empty_node_def storm_Limit_def)

theorem failure_looks_empty_witness:
  "failure (db (ex_store\<lparr>db := (db ex_store)\<lparr>failure := Some ''database not open''\<rparr>\<rparr>)) = Some ''database not open'' \<and>
   Count (ex_store\<lparr>db := (db ex_store)\<lparr>failure := Some ''database not open''\<rparr>\<rparr>) [] = 0 \<and>
   Height (ex_store\<lparr>db := (db ex_store)\<lparr>failure := Some ''database not open''\<rparr>\<rparr>) = 0 \<and>
   Count ex_store [] = 3"
proof -
  have h: "failure (db (ex_store\<lparr>db := (db ex_store)\<lparr>failure := Some ''database not open''\<rparr>\<rparr>)) = Some ''database not open''"
    by simp
  have c: "Count ex_store [] = 3" by code_simp
  show ?thesis
    using h c failure_looks_empty [OF h, of "[]"] by simp
qed

section \<open>Optional lookup\<close>

text \<open>
  Claim C8, amended. \<open>One'\<close> has no error result and asks the cache first. When the pair
  (field, key) is not cached and the backend lookup finds nothing (or fails), it returns no
  value and leaves the store as it was. When the pair is not cached and the backend finds a
  record, it returns that record and puts it into the cache under (field, key); with a
  cache of positive capacity the next lookup of the pair is a cache hit on that record. When
  the pair is cached, it returns the cached record and does not ask the backend.
\<close>

theorem One_optional_lookup:
  "(cache_hit d f k = None \<and> db_One (db d) f k = Inl e \<longrightarrow> One' d f k = (d, None)) \<and>
   (failure (db d) = None \<and> cache_hit d f k = None \<and> (\<forall>r \<in> set (rows (db d)). field_of f r \<noteq> Some k) \<longrightarrow>
      One' d f k = (d, None)) \<and>
   (cache_hit d f k = None \<and> db_One (db d) f k = Inr r \<longrightarrow>
      One' d f k = (cache_put d f k r, Some (ToCrossTransaction r)) \<and>
      (\<forall>c. cache d = Some c \<and> 0 < capacity c \<longrightarrow> cache_hit (fst (One' d f k)) f k = Some r)) \<and>
   (cache_hit d f k = Some cr \<longrightarrow> One' d f k = (d, Some (ToCrossTransaction cr)))"
proof -
  have "db_One (db d) f k = Inl ErrNotFound"
    if "failure (db d) = None" and "\<forall>r \<in> set (rows (db d)). field_of f r \<noteq> Some k"
  proof -
    from that(2) have "find (\<lambda>r. field_of f r = Some k) (rows (db d)) = None"
      by (simp add: find_None_iff)
    with that(1) show ?thesis by (simp add: db_One_def)
  qed
  then show ?thesis
    by (auto simp: One'_def cache_hit_put_same)
qed

theorem One_optional_lookup_witness:
  "cache_hit ex_store BlockNumField (KUint64 9) = None \<and>
   db_One (db ex_store) BlockNumField (KUint64 9) = Inr (ex_rec 2 2 11 9) \<and>
   snd (One' ex_store BlockNumField (KUint64 9)) = Some (ex_ctx 2 11 9) \<and>
   cache_hit (fst (One' ex_store BlockNumField (KUint64 9))) BlockNumField (KUint64 9) = Some (ex_rec 2 2 11 9) \<and>
   cache_hit ex_store BlockNumField (KUint64 4) = None \<and>
   One' ex_store BlockNumField (KUint64 4) = (ex_store, None) \<and>
   cache_hit ex_store CtxIdIndex (KHash 1) = Some (ex_rec 1 1 10 5) \<and>
   One' ex_store CtxIdIndex (KHash 1) = (ex_store, Some (ex_ctx 1 10 5))"
proof -
  have h1: "cache_hit ex_store BlockNumField (KUint64 9) = None" by code_simp
  have h2: "db_One (db ex_store) BlockNumField (KUint64 9) = Inr (ex_rec 2 2 11 9)" by code_simp
  have h3: "cache ex_store = Some \<lparr>entries = [((CtxIdIndex, KHash 1), ex_rec 1 1 10 5)], capacity = 8\<rparr>"
    by (simp add: ex_store_def)
  have h4: "cache_hit ex_store BlockNumField (KUint64 4) = None" by code_simp
  have h5: "\<forall>r \<in> set (rows (db ex_store)). field_of BlockNumField r \<noteq> Some (KUint64 4)" by code_simp
  have h6: "failure (db ex_store) = None" by code_simp
  have t: "ToCrossTransaction (ex_rec 2 2 11 9) = ex_ctx 2 11 9" by code_simp
  have a: "One' ex_store BlockNumField (KUint64 9) =
             (cache_put ex_store BlockNumField (KUint64 9) (ex_rec 2 2 11 9), Some (ToCrossTransaction (ex_rec 2 2 11 9))) \<and>
           (\<forall>c. cache ex_store = Some c \<and> 0 < capacity c \<longrightarrow>
              cache_hit (fst (One' ex_store BlockNumField (KUint64 9))) BlockNumField (KUint64 9) = Some (ex_rec 2 2 11 9))"
    using h1 h2 One_optional_lookup [of ex_store BlockNumField "KUint64 9" undefined "ex_rec 2 2 11 9"]
    by blast
  have cap: "0 < capacity \<lparr>entries = [((CtxIdIndex, KHash 1), ex_rec 1 1 10 5)], capacity = 8\<rparr>"
    by simp
  from a h3 cap
  have b: "cache_hit (fst (One' ex_store BlockNumField (KUint64 9))) BlockNumField (KUint64 9) = Some (ex_rec 2 2 11 9)"
    by blast
  have c: "One' ex_store BlockNumField (KUint64 4) = (ex_store, None)"
    using h4 h5 h6 One_optional_lookup [of ex_store BlockNumField "KUint64 4" undefined undefined]
    by blast
  have h7: "cache_hit ex_store CtxIdIndex (KHash 1) = Some (ex_rec 1 1 10 5)" by code_simp
  have t': "ToCrossTransaction (ex_rec 1 1 10 5) = ex_ctx 1 10 5" by code_simp
  from h7 One_optional_lookup [of ex_store CtxIdIndex "KHash 1" undefined undefined "ex_rec 1 1 10 5"]
  have "One' ex_store CtxIdIndex (KHash 1) = (ex_store, Some (ToCrossTransaction (ex_rec 1 1 10 5)))"
    by blast
  then have e: "One' ex_store CtxIdIndex (KHash 1) = (ex_store, Some (ex_ctx 1 10 5))"
    by (simp only: t')
  show ?thesis
    using h1 h2 h4 h7 a b c e t by simp
qed

text \<open>
  The claim as it stands fails on a stale cache entry: in \<open>ex_stale\<close>, a well-formed store
  reached by a lookup and an update within the contract, no stored record has height 9, and
  \<open>One'\<close> on height 9 returns the record cached before the update.
\<close>

theorem One_returns_stale_record:
  "wf_store ex_stale \<and> map BlockNum (rows (db ex_stale)) = [5, 4, 3] \<and>
   snd (One' ex_stale BlockNumField (KUint64 9)) = Some (ex_ctx 2 11 9)"
  by code_simp

section \<open>Height\<close>

lemma last_sort_key_max:
  "xs \<noteq> [] \<Longrightarrow> \<forall>x \<in> set xs. f x \<le> f (last (sort_key f xs))"
proof
  fix x assume ne: "xs \<noteq> []" and x: "x \<in> set xs"
  let ?ys = "sort_key f xs"
  have s: "sorted (map f ?ys)" by simp
  from x have "x \<in> set ?ys" by simp
  then obtain i where i: "i < length ?ys" "?ys ! i = x"
    by (metis in_set_conv_nth)
  from ne have ne': "?ys \<noteq> []" by (metis length_sort list.size(3) length_0_conv)
  have "map f ?ys ! i \<le> map f ?ys ! (length ?ys - 1)"
    using s i(1) by (intro sorted_nth_mono) simp_all
  with i ne' show "f x \<le> f (last ?ys)"
    by (simp add: last_conv_nth)
qed

lemma last_sort_key_mem: "xs \<noteq> [] \<Longrightarrow> last (sort_key f xs) \<in> set xs"
  by (metis last_in_set length_0_conv length_sort set_sort)

lemma Height_healthy:
  assumes "failure (db d) = None" and "rows (db d) \<noteq> []"
  shows "Height d = BlockNum (last (sort_key (field_ord BlockNumField) (rows (db d))))"
proof -
  let ?ys = "sort_key (field_ord BlockNumField) (rows (db d))"
  have "?ys \<noteq> []"
    using assms(2) by (metis length_sort list.size(3) length_0_conv)
  then have "take (Suc 0) (rev ?ys) = [last ?ys]"
    by (cases ?ys rule: rev_cases) simp_all
  then have "storm_Limit 1 (rev ?ys) = [last ?ys]"
    by (simp add: storm_Limit_def)
  with assms(1) show ?thesis
    by (simp add: Height_def db_AllByIndex_def Let_def)
qed

lemma Height_empty: "rows (db d) = [] \<Longrightarrow> Height d = 0"
  by (simp add: Height_def db_AllByIndex_def storm_Limit_def split: option.splits)

lemma Height_Max:
  assumes "failure (db d) = None" and "rows (db d) \<noteq> []"
  shows "Height d = Max (BlockNum ` set (rows (db d)))"
proof -
  let ?l = "last (sort_key (field_ord BlockNumField) (rows (db d)))"
  have h: "Height d = BlockNum ?l"
    using assms by (rule Height_healthy)
  have "\<forall>x \<in> set (rows (db d)). field_ord BlockNumField x \<le> field_ord BlockNumField ?l"
    using assms(2) by (rule last_sort_key_max)
  then have le: "\<forall>x \<in> set (rows (db d)). BlockNum x \<le> BlockNum ?l"
    by (simp add: field_ord_BlockNumField word_le_def)
  have mem: "?l \<in> set (rows (db d))"
    using assms(2) by (rule last_sort_key_mem)
  have "Max (BlockNum ` set (rows (db d))) = BlockNum ?l"
    using le mem by (intro Max_eqI) auto
  with h show ?thesis by simp
qed


lemma Write_fresh_db:
  assumes "wf_store d" and "ctx_ID ctx \<notin> CtxId ` set (rows (db d))"
  shows "rows (db (fst (Write d ctx))) =
           rows (db d) @ [(NewCrossTransactionIndexed ctx)\<lparr>PK := seq (db d) + 1\<rparr>]"
    and "seq (db (fst (Write d ctx))) = seq (db d) + 1"
  using assms by (simp_all add: Write_fresh db_cache_put)

text \<open>
  Claim C9. \<open>Height\<close> is 0 on a store without records; on a healthy backend with records
  it is the greatest \<open>BlockNum\<close> stored, read off the first record of the descending scan of
  the height index limited to one; and after three records of distinct identities at heights
  5, 9 and 3 were written to a new store it is 9.
\<close>

theorem Height_latest:
  "(rows (db d) = [] \<longrightarrow> Height d = 0) \<and>
   (failure (db d) = None \<and> rows (db d) \<noteq> [] \<longrightarrow>
      Height d = Max (BlockNum ` set (rows (db d))) \<and>
      Height d = BlockNum (hd (rev (sort_key (field_ord BlockNumField) (rows (db d)))))) \<and>
   (distinct [ctx_ID a, ctx_ID b, ctx_ID c] \<and>
    ctx_BlockNum a = 5 \<and> ctx_BlockNum b = 9 \<and> ctx_BlockNum c = 3 \<longrightarrow>
      Height (fst (Write (fst (Write (fst (Write (NewIndexDB cid empty_node sz) a)) b)) c)) = 9)"
proof (intro conjI impI)
  assume "rows (db d) = []"
  then show "Height d = 0" by (rule Height_empty)
next
  assume "failure (db d) = None \<and> rows (db d) \<noteq> []"
  then show "Height d = Max (BlockNum ` set (rows (db d)))"
    by (simp add: Height_Max)
next
  assume h: "failure (db d) = None \<and> rows (db d) \<noteq> []"
  then have "sort_key (field_ord BlockNumField) (rows (db d)) \<noteq> []"
    by (metis length_sort list.size(3) length_0_conv)
  then have "hd (rev (sort_key (field_ord BlockNumField) (rows (db d)))) =
      last (sort_key (field_ord BlockNumField) (rows (db d)))"
    by (simp add: hd_rev)
  with h show "Height d = BlockNum (hd (rev (sort_key (field_ord BlockNumField) (rows (db d)))))"
    by (simp add: Height_healthy)
next
  assume h: "distinct [ctx_ID a, ctx_ID b, ctx_ID c] \<and>
    ctx_BlockNum a = 5 \<and> ctx_BlockNum b = 9 \<and> ctx_BlockNum c = 3"
  define d0 where "d0 = NewIndexDB cid empty_node sz"
  define d1 where "d1 = fst (Write d0 a)"
  define d2 where "d2 = fst (Write d1 b)"
  define d3 where "d3 = fst (Write d2 c)"
  have wf0: "wf_store d0" by (simp add: d0_def wf_NewIndexDB)
  have r0: "rows (db d0) = []" "seq (db d0) = 0"
    by (simp_all add: d0_def NewIndexDB_def empty_node_def)
  have r1: "map CtxId (rows (db d1)) = [ctx_ID a]" "map BlockNum (rows (db d1)) = [5]" "seq (db d1) = 1"
    using wf0 r0 h by (simp_all add: d1_def Write_fresh_db NewCrossTransactionIndexed_def)
  have wf1: "wf_store d1"
    unfolding d1_def using wf0 r0 by (intro wf_Write) (simp_all add: MaxUint64_def)
  have nb: "ctx_ID b \<notin> CtxId ` set (rows (db d1))"
    using h r1(1) by (metis distinct_length_2_or_more list.set_map list.simps(15) empty_set singletonD)
  have r2: "map CtxId (rows (db d2)) = [ctx_ID a, ctx_ID b]" "map BlockNum (rows (db d2)) = [5, 9]" "seq (db d2) = 2"
    using wf1 nb r1 h by (simp_all add: d2_def Write_fresh_db NewCrossTransactionIndexed_def)
  have wf2: "wf_store d2"
    unfolding d2_def using wf1 r1 by (intro wf_Write) (simp_all add: MaxUint64_def)
  have "set (map CtxId (rows (db d2))) = {ctx_ID a, ctx_ID b}"
    by (simp add: r2(1))
  then have nc: "ctx_ID c \<notin> CtxId ` set (rows (db d2))"
    using h by auto
  have r3: "map BlockNum (rows (db d3)) = [5, 9, 3]"
    using wf2 nc r2 h by (simp add: d3_def Write_fresh_db NewCrossTransactionIndexed_def)
  have wf3: "wf_store d3"
    unfolding d3_def using wf2 r2 by (intro wf_Write) (simp_all add: MaxUint64_def)
  have ne: "rows (db d3) \<noteq> []" using r3 by auto
  have "BlockNum ` set (rows (db d3)) = set (map BlockNum (rows (db d3)))" by simp
  also have "\<dots> = {5, 9, 3}" by (simp add: r3)
  finally have "Height d3 = Max {5, 9, 3}"
    using wf3 ne by (simp add: Height_Max wf_store_def)
  then show "Height (fst (Write (fst (Write (fst (Write (NewIndexDB cid empty_node sz) a)) b)) c)) = 9"
    by (simp add: d3_def d2_def d1_def d0_def)
qed

theorem Height_latest_witness:
  "rows (db (NewIndexDB 1 empty_node 8)) = [] \<and> Height (NewIndexDB 1 empty_node 8) = 0 \<and>
   failure (db ex_store) = None \<and> rows (db ex_store) \<noteq> [] \<and> Height ex_store = 9 \<and>
   distinct [ctx_ID (ex_ctx 1 10 5), ctx_ID (ex_ctx 2 11 9), ctx_ID (ex_ctx 3 12 3)] \<and>
   ctx_BlockNum (ex_ctx 1 10 5) = 5 \<and> ctx_BlockNum (ex_ctx 2 11 9) = 9 \<and> ctx_BlockNum (ex_ctx 3 12 3) = 3 \<and>
   Height (fst (Write (fst (Write (fst (Write (NewIndexDB 1 empty_node 8) (ex_ctx 1 10 5))) (ex_ctx 2 11 9))) (ex_ctx 3 12 3))) = 9"
proof -
  have h1: "rows (db (NewIndexDB 1 empty_node 8)) = []" by code_simp
  have h2: "failure (db ex_store) = None \<and> rows (db ex_store) \<noteq> []" by code_simp
  have h3: "distinct [ctx_ID (ex_ctx 1 10 5), ctx_ID (ex_ctx 2 11 9), ctx_ID (ex_ctx 3 12 3)] \<and>
    ctx_BlockNum (ex_ctx 1 10 5) = 5 \<and> ctx_BlockNum (ex_ctx 2 11 9) = 9 \<and> ctx_BlockNum (ex_ctx 3 12 3) = 3"
    by code_simp
  have m: "BlockNum (hd (rev (sort_key (field_ord BlockNumField) (rows (db ex_store))))) = 9" by code_simp
  have a: "Height (NewIndexDB 1 empty_node 8) = 0"
    using h1 Height_latest [of "NewIndexDB 1 empty_node 8"] by blast
  have b: "Height ex_store = BlockNum (hd (rev (sort_key (field_ord BlockNumField) (rows (db ex_store)))))"
    using h2 Height_latest [of ex_store] by blast
  have c: "Height (fst (Write (fst (Write (fst (Write (NewIndexDB 1 empty_node 8) (ex_ctx 1 10 5))) (ex_ctx 2 11 9))) (ex_ctx 3 12 3))) = 9"
    using h3 Height_latest [of undefined "ex_ctx 1 10 5" "ex_ctx 2 11 9" "ex_ctx 3 12 3" 1 8] by blast
  show ?thesis
    using h1 h2 h3 a b c m by simp
qed

section \<open>Updating\<close>

lemma db_Update_replaces:
  assumes "failure n = None" and "distinct (map CtxId (rows n))" and "distinct (map PK (rows n))"
    and "old \<in> set (rows n)" and "PK new = PK old" and "CtxId new = CtxId old"
  shows "db_Update n new = Inr (n\<lparr>rows := map (\<lambda>x. if x = old then new else x) (rows n)\<rparr>)"
proof -
  have pk: "\<And>x. x \<in> set (rows n) \<Longrightarrow> (PK x = PK old) = (x = old)"
    using assms(3,4) by (auto simp: distinct_map inj_on_def)
  have ci: "\<And>x. x \<in> set (rows n) \<Longrightarrow> (CtxId x = CtxId old) = (x = old)"
    using assms(2,4) by (auto simp: distinct_map inj_on_def)
  have a: "\<exists>x \<in> set (rows n). PK x = PK new"
    using assms(4,5) by auto
  have b: "\<not> (\<exists>x \<in> set (rows n). CtxId x = CtxId new \<and> PK x \<noteq> PK new)"
    using ci pk by (auto simp: assms(5,6))
  have c: "map (\<lambda>x. if PK x = PK new then new else x) (rows n) =
           map (\<lambda>x. if x = old then new else x) (rows n)"
    using pk by (intro map_cong) (simp_all add: assms(5))
  show ?thesis
    using assms(1) a b c by (simp add: db_Update_def)
qed

lemma map_replace_key:
  "f new = f old \<Longrightarrow> map f (map (\<lambda>x. if x = old then new else x) xs) = map f xs"
  by (induction xs) auto

lemma coherent_after_Update:
  assumes "cache_coherent d" and "CtxId new = CtxId old"
    and "rows n' = map (\<lambda>x. if x = old then new else x) (rows (db d))"
    and "old \<in> set (rows (db d))"
  shows "cache_coherent (cache_put (d\<lparr>db := n'\<rparr>) CtxIdIndex (KHash (CtxId old)) new)"
proof (cases "cache d")
  case None
  then show ?thesis by (simp add: cache_put_def cache_coherent_def)
next
  case (Some c)
  have new: "new \<in> set (rows n')"
    using assms(3,4) by auto
  have sub: "set (entries (cache_Put c CtxIdIndex (KHash (CtxId old)) new)) \<subseteq>
      insert ((CtxIdIndex, KHash (CtxId old)), new)
        {e \<in> set (entries c). fst e \<noteq> (CtxIdIndex, KHash (CtxId old))}"
    by (auto simp: cache_Put_def dest: in_set_takeD)
  have "snd e \<in> set (rows n') \<and> snd (fst e) = KHash (CtxId (snd e))"
    if e: "e \<in> set (entries (cache_Put c CtxIdIndex (KHash (CtxId old)) new))"
      and f: "fst (fst e) = CtxIdIndex" for e
  proof (cases "e = ((CtxIdIndex, KHash (CtxId old)), new)")
    case True
    with new assms(2) show ?thesis by simp
  next
    case False
    with e sub have m: "e \<in> set (entries c)" and k: "fst e \<noteq> (CtxIdIndex, KHash (CtxId old))"
      by auto
    from m f assms(1) Some have co: "snd e \<in> set (rows (db d))" "snd (fst e) = KHash (CtxId (snd e))"
      by (auto simp: cache_coherent_def list_all_iff)
    from k f co(2) have "snd e \<noteq> old"
      by (cases e) auto
    with co assms(3) show ?thesis by auto
  qed
  with Some show ?thesis
    by (simp add: cache_coherent_def cache_put_def list_all_iff)
qed

lemma Update_found:
  assumes "wf_store d" and "old \<in> set (rows (db d))"
    and "PK (updater old) = PK old" and "CtxId (updater old) = CtxId old"
  shows "Update d (CtxId old) updater =
           (cache_put ((fst (get d (CtxId old)))\<lparr>db := (db d)\<lparr>rows := map (\<lambda>x. if x = old then updater old else x) (rows (db d))\<rparr>\<rparr>)
              CtxIdIndex (KHash (CtxId old)) (updater old), None)"
proof -
  obtain d1 where g: "get d (CtxId old) = (d1, Inr old)"
    using wf_get_stored [OF assms(1,2)] by (cases "get d (CtxId old)") simp
  then have d1: "db d1 = db d"
    using db_get [of d "CtxId old"] by simp
  have "db_Update (db d) (updater old) =
      Inr ((db d)\<lparr>rows := map (\<lambda>x. if x = old then updater old else x) (rows (db d))\<rparr>)"
    using assms by (intro db_Update_replaces) (simp_all add: wf_store_def)
  with g d1 show ?thesis
    by (simp add: Update_def Let_def)
qed

lemma wf_Update:
  assumes "wf_store d" and "old \<in> set (rows (db d))"
    and "PK (updater old) = PK old" and "CtxId (updater old) = CtxId old"
  shows "wf_store (fst (Update d (CtxId old) updater))"
proof -
  define d1 where "d1 = fst (get d (CtxId old))"
  define rs where "rs = map (\<lambda>x. if x = old then updater old else x) (rows (db d))"
  define d' where "d' = cache_put (d1\<lparr>db := (db d)\<lparr>rows := rs\<rparr>\<rparr>) CtxIdIndex (KHash (CtxId old)) (updater old)"
  have st: "fst (Update d (CtxId old) updater) = d'"
    by (simp add: Update_found [of d old updater, OF assms] d'_def d1_def rs_def)
  have wf1: "wf_store d1" unfolding d1_def using assms(1) by (rule wf_get)
  have db1: "db d1 = db d" unfolding d1_def by (rule db_get)
  have db': "db d' = (db d)\<lparr>rows := rs\<rparr>"
    by (simp add: d'_def db_cache_put)
  have c: "cache_coherent d'"
    unfolding d'_def using wf1 assms(2,4) db1
    by (intro coherent_after_Update) (simp_all add: wf_store_def rs_def)
  have m1: "map CtxId rs = map CtxId (rows (db d))"
    unfolding rs_def using assms(4) by (rule map_replace_key)
  have m2: "map PK rs = map PK (rows (db d))"
    unfolding rs_def using assms(3) by (rule map_replace_key)
  have "list_all (\<lambda>k. k \<le> seq (db d)) (map PK rs) = list_all (\<lambda>k. k \<le> seq (db d)) (map PK (rows (db d)))"
    by (simp only: m2)
  then have le: "list_all (\<lambda>r. PK r \<le> seq (db d)) rs = list_all (\<lambda>r. PK r \<le> seq (db d)) (rows (db d))"
    by (simp add: list_all_iff del: m2)
  have "wf_store d'"
    using assms(1) c by (simp add: wf_store_def db' m1 m2 le)
  with st show ?thesis by simp
qed

lemma Update_within_contract:
  assumes "wf_store d" and "old \<in> set (rows (db d))"
    and "PK (updater old) = PK old" and "CtxId (updater old) = CtxId old"
  shows "snd (Update d (CtxId old) updater) = None \<and>
         rows (db (fst (Update d (CtxId old) updater))) =
           map (\<lambda>x. if x = old then updater old else x) (rows (db d)) \<and>
         snd (get (fst (Update d (CtxId old) updater)) (CtxId old)) = Inr (updater old) \<and>
         snd (Read (fst (Update d (CtxId old) updater)) (CtxId old)) = Inr (ToCrossTransaction (updater old))"
proof -
  have wf': "wf_store (fst (Update d (CtxId old) updater))"
    using assms by (rule wf_Update [of d old updater])
  have r: "rows (db (fst (Update d (CtxId old) updater))) =
      map (\<lambda>x. if x = old then updater old else x) (rows (db d))"
    by (simp add: Update_found [of d old updater, OF assms] db_cache_put)
  then have "updater old \<in> set (rows (db (fst (Update d (CtxId old) updater))))"
    using assms(2) by auto
  with wf' have "snd (get (fst (Update d (CtxId old) updater)) (CtxId (updater old))) = Inr (updater old)"
    by (rule wf_get_stored)
  then have g: "snd (get (fst (Update d (CtxId old) updater)) (CtxId old)) = Inr (updater old)"
    by (simp add: assms(4))
  with r show ?thesis
    by (simp add: Update_found [of d old updater, OF assms] Read_get)
qed

lemma map_PK_replace: "map PK (map (\<lambda>x. if PK x = PK r then r else x) xs) = map PK xs"
  by (induction xs) auto

lemma db_Update_PK: "db_Update n r = Inr n' \<Longrightarrow> map PK (rows n') = map PK (rows n)"
  by (auto simp: db_Update_def map_PK_replace simp del: map_map split: option.splits if_splits)

lemma Update_PK: "map PK (rows (db (fst (Update d c updater)))) = map PK (rows (db d))"
proof -
  obtain d1 res where g: "get d c = (d1, res)" by (cases "get d c")
  then have d1: "db d1 = db d" using db_get [of d c] by simp
  show ?thesis
  proof (cases res)
    case (Inl err)
    with g d1 show ?thesis by (simp add: Update_def)
  next
    case (Inr ctx)
    show ?thesis
    proof (cases "db_Update (db d1) (updater ctx)")
      case (Inl err)
      with g Inr d1 show ?thesis by (simp add: Update_def Let_def)
    next
      case u: (Inr n')
      then have "map PK (rows n') = map PK (rows (db d1))" by (rule db_Update_PK)
      with g Inr u d1 show ?thesis by (simp add: Update_def Let_def db_cache_put)
    qed
  qed
qed

lemma Update_CtxId:
  assumes "wf_store d" and "old \<in> set (rows (db d))" and "CtxId (updater old) = CtxId old"
  shows "map CtxId (rows (db (fst (Update d (CtxId old) updater)))) = map CtxId (rows (db d))"
proof (cases "PK (updater old) = PK old")
  case True
  with assms have "rows (db (fst (Update d (CtxId old) updater))) =
      map (\<lambda>x. if x = old then updater old else x) (rows (db d))"
    using Update_within_contract [of d old updater] by simp
  with assms(3) show ?thesis by (simp add: map_replace_key del: map_map)
next
  case False
  obtain d1 where g: "get d (CtxId old) = (d1, Inr old)"
    using wf_get_stored [OF assms(1,2)] by (cases "get d (CtxId old)") simp
  then have d1: "db d1 = db d" using db_get [of d "CtxId old"] by simp
  have "\<exists>x \<in> set (rows (db d)). CtxId x = CtxId (updater old) \<and> PK x \<noteq> PK (updater old)"
    using assms(2,3) False by (intro bexI [of _ old]) auto
  then have "\<exists>err. db_Update (db d) (updater old) = Inl err"
    by (auto simp: db_Update_def split: option.splits)
  then obtain err where "db_Update (db d) (updater old) = Inl err" ..
  with g d1 show ?thesis by (simp add: Update_def Let_def)
qed

text \<open>
  Claim C2, amended. Whatever the updater, \<open>Update\<close> leaves the \<open>PK\<close>s of the records in
  the backend as they are. For a record stored in a well-formed store and an updater that
  leaves the \<open>CtxId\<close> of that record as it is, the \<open>CtxId\<close>s of the records are unchanged
  too; and when the updater leaves both \<open>PK\<close> and \<open>CtxId\<close> of the record as they are,
  \<open>Update\<close> succeeds, the stored record becomes the updater's result (every other field is
  as the updater left it), all other records stay, and the identity resolves to the updated
  record.
\<close>

theorem Update_keeps_identity:
  "map PK (rows (db (fst (Update d c updater)))) = map PK (rows (db d)) \<and>
   (wf_store d \<and> old \<in> set (rows (db d)) \<and> CtxId (updater old) = CtxId old \<longrightarrow>
      map CtxId (rows (db (fst (Update d (CtxId old) updater)))) = map CtxId (rows (db d))) \<and>
   (wf_store d \<and> old \<in> set (rows (db d)) \<and>
    PK (updater old) = PK old \<and> CtxId (updater old) = CtxId old \<longrightarrow>
      snd (Update d (CtxId old) updater) = None \<and>
      rows (db (fst (Update d (CtxId old) updater))) =
        map (\<lambda>x. if x = old then updater old else x) (rows (db d)) \<and>
      snd (get (fst (Update d (CtxId old) updater)) (CtxId old)) = Inr (updater old) \<and>
      snd (Read (fst (Update d (CtxId old) updater)) (CtxId old)) =
        Inr (ToCrossTransaction (updater old)))"
  using Update_PK [of d c updater] Update_CtxId [of d old updater]
    Update_within_contract [of d old updater]
  by blast

theorem Update_keeps_identity_witness:
  "wf_store ex_store \<and> ex_rec 1 1 10 5 \<in> set (rows (db ex_store)) \<and>
   snd (Update ex_store 1 ex_set_status) = None \<and>
   rows (db (fst (Update ex_store 1 ex_set_status))) =
     [(ex_rec 1 1 10 5)\<lparr>Status := 2\<rparr>, ex_rec 2 2 11 9, ex_rec 3 3 12 3] \<and>
   map CtxId (rows (db (fst (Update ex_store 1 ex_set_status)))) = map CtxId (rows (db ex_store)) \<and>
   map PK (rows (db (fst (Update ex_store 1 ex_rewrite_id)))) = map PK (rows (db ex_store))"
proof -
  have h1: "wf_store ex_store" by code_simp
  have h2: "ex_rec 1 1 10 5 \<in> set (rows (db ex_store))" by code_simp
  have h3: "PK (ex_set_status (ex_rec 1 1 10 5)) = PK (ex_rec 1 1 10 5)" by (simp add: ex_set_status_def)
  have h4: "CtxId (ex_set_status (ex_rec 1 1 10 5)) = CtxId (ex_rec 1 1 10 5)" by (simp add: ex_set_status_def)
  have c: "CtxId (ex_rec 1 1 10 5) = 1" by (simp add: ex_rec_def)
  have m: "map (\<lambda>x. if x = ex_rec 1 1 10 5 then ex_set_status (ex_rec 1 1 10 5) else x) (rows (db ex_store)) =
     [(ex_rec 1 1 10 5)\<lparr>Status := 2\<rparr>, ex_rec 2 2 11 9, ex_rec 3 3 12 3]"
    by (simp add: ex_store_def ex_rec_def ex_set_status_def)
  from h1 h2 h3 h4 Update_keeps_identity [of ex_store 1 ex_rewrite_id "ex_rec 1 1 10 5"]
  have p: "map PK (rows (db (fst (Update ex_store 1 ex_rewrite_id)))) = map PK (rows (db ex_store))"
    by blast
  from h1 h2 h3 h4 Update_keeps_identity [of ex_store 1 ex_set_status "ex_rec 1 1 10 5"]
  have k: "map CtxId (rows (db (fst (Update ex_store (CtxId (ex_rec 1 1 10 5)) ex_set_status)))) =
        map CtxId (rows (db ex_store))"
    and n: "snd (Update ex_store (CtxId (ex_rec 1 1 10 5)) ex_set_status) = None"
    and r: "rows (db (fst (Update ex_store (CtxId (ex_rec 1 1 10 5)) ex_set_status))) =
        map (\<lambda>x. if x = ex_rec 1 1 10 5 then ex_set_status (ex_rec 1 1 10 5) else x) (rows (db ex_store))"
    by blast+
  from k have k': "map CtxId (rows (db (fst (Update ex_store 1 ex_set_status)))) = map CtxId (rows (db ex_store))"
    by (simp only: c)
  from n have n': "snd (Update ex_store 1 ex_set_status) = None"
    by (simp only: c)
  from r have r': "rows (db (fst (Update ex_store 1 ex_set_status))) =
        [(ex_rec 1 1 10 5)\<lparr>Status := 2\<rparr>, ex_rec 2 2 11 9, ex_rec 3 3 12 3]"
    by (simp only: c m)
  from h1 h2 p k' n' r' show ?thesis by blast
qed

text \<open>
  The claim as it stands fails at the updater \<open>ex_rewrite_id\<close>, which sets \<open>CtxId\<close> to 7:
  \<open>Update\<close> persists its result, and the record stored under key 1 has then another
  identity, which the comment at the call of the updater says should never be allowed.
\<close>

theorem Update_changes_identity:
  "wf_store ex_store \<and> map CtxId (rows (db ex_store)) = [1, 2, 3] \<and>
   snd (Update ex_store 1 ex_rewrite_id) = None \<and>
   map PK (rows (db (fst (Update ex_store 1 ex_rewrite_id)))) = [1, 2, 3] \<and>
   map CtxId (rows (db (fst (Update ex_store 1 ex_rewrite_id)))) = [7, 2, 3]"
  by code_simp

section \<open>Range by height\<close>

lemma cut_at_takeWhile: "cut_at h xs = takeWhile (\<lambda>tx. BlockNum tx \<noteq> h) xs"
  by (induction xs) auto

lemma found_cases: "(case found xs of Inl err \<Rightarrow> [] | Inr ys \<Rightarrow> ys) = xs"
  by (simp add: found_def)

lemma db_Range_Inr:
  assumes "db_Range n f lo hi l = Inr xs"
  shows "failure n = None" and "xs \<noteq> []"
    and "xs = storm_Limit l (filter (in_range f lo hi) (sort_key (field_ord f) (rows n)))"
  using assms by (auto simp: db_Range_def found_def split: option.splits if_splits)

lemma storm_Limit_take: "\<exists>k. storm_Limit l xs = take k xs"
proof (cases "l < 0")
  case True
  then have "storm_Limit l xs = take (length xs) xs" by (simp add: storm_Limit_def)
  then show ?thesis ..
next
  case False
  then have "storm_Limit l xs = take (nat l) xs" by (simp add: storm_Limit_def)
  then show ?thesis ..
qed

lemma sorted_BlockNum:
  "sorted (map (field_ord BlockNumField) xs) = sorted (map BlockNum xs)"
  by (simp add: sorted_map field_ord_BlockNumField word_le_def)

lemma sorted_le_last: "sorted (map f xs) \<Longrightarrow> x \<in> set xs \<Longrightarrow> f x \<le> f (last xs)"
  by (induction xs) auto

lemma sorted_prefix_complete:
  fixes f :: "'a \<Rightarrow> 'b::linorder"
  assumes "sorted (map f xs)" and "x \<in> set xs" and "take k xs \<noteq> []"
    and "f x < f (last (take k xs))"
  shows "x \<in> set (take k xs)"
proof (rule ccontr)
  assume "x \<notin> set (take k xs)"
  with assms(2) have x: "x \<in> set (drop k xs)"
    by (metis Un_iff append_take_drop_id set_append)
  have "sorted (map f (take k xs) @ map f (drop k xs))"
    using assms(1) by (metis append_take_drop_id map_append)
  then have "\<forall>a \<in> set (take k xs). \<forall>b \<in> set (drop k xs). f a \<le> f b"
    by (auto simp: sorted_append)
  with x assms(3) have "f (last (take k xs)) \<le> f x"
    using last_in_set by blast
  with assms(4) show False by simp
qed

lemma takeWhile_sorted_below:
  fixes f :: "'a \<Rightarrow> 'b::linorder"
  shows "sorted (map f xs) \<Longrightarrow> x \<in> set xs \<Longrightarrow> f x < h \<Longrightarrow> x \<in> set (takeWhile (\<lambda>y. f y \<noteq> h) xs)"
  by (induction xs) auto

lemma in_range_BlockNum:
  "in_range BlockNumField lo hi r = (lo \<le> BlockNum r \<and> BlockNum r \<le> hi)"
  by (simp add: in_range_def field_of_BlockNumField)

lemma db_Find_BlockNum:
  "failure n = None \<Longrightarrow>
   (case db_Find n BlockNumField (KUint64 h) of Inl err \<Rightarrow> [] | Inr xs \<Rightarrow> xs) =
     filter (\<lambda>r. BlockNum r = h) (rows n)"
  by (simp add: db_Find_def found_cases field_of_BlockNumField)

lemma RangeByNumber_Inr:
  assumes "db_Range (db d) BlockNumField lo hi pageSize = Inr ctxs"
  shows "RangeByNumber d lo hi pageSize =
           map ToCrossTransaction (takeWhile (\<lambda>tx. BlockNum tx \<noteq> BlockNum (last ctxs)) ctxs
                                   @ filter (\<lambda>r. BlockNum r = BlockNum (last ctxs)) (rows (db d)))"
  using assms db_Range_Inr(1,2) [OF assms]
  by (simp add: RangeByNumber_def Let_def cut_at_takeWhile db_Find_BlockNum)

lemma RangeByNumber_Inl:
  "db_Range (db d) BlockNumField lo hi pageSize = Inl e \<Longrightarrow> RangeByNumber d lo hi pageSize = []"
  by (simp add: RangeByNumber_def)

lemma ctx_BlockNum_To: "ctx_BlockNum (ToCrossTransaction r) = BlockNum r"
  by (simp add: ToCrossTransaction_def)


lemma scan_facts:
  assumes "db_Range (db d) BlockNumField lo hi pageSize = Inr ctxs"
  shows "sorted (map BlockNum ctxs)"
    and "\<forall>x \<in> set ctxs. x \<in> set (rows (db d)) \<and> lo \<le> BlockNum x \<and> BlockNum x \<le> hi"
    and "\<forall>r \<in> set (rows (db d)). lo \<le> BlockNum r \<and> BlockNum r < BlockNum (last ctxs) \<longrightarrow> r \<in> set ctxs"
proof -
  let ?F = "filter (in_range BlockNumField lo hi) (sort_key (field_ord BlockNumField) (rows (db d)))"
  have sF: "sorted (map BlockNum ?F)"
    by (simp add: sorted_BlockNum [symmetric] sorted_filter)
  from db_Range_Inr(3) [OF assms] storm_Limit_take [of pageSize ?F]
  obtain k where k: "ctxs = take k ?F" by auto
  have ne: "take k ?F \<noteq> []"
    using db_Range_Inr(2) [OF assms] k by simp
  show "sorted (map BlockNum ctxs)"
    unfolding k using sF by (simp add: take_map [symmetric])
  show "\<forall>x \<in> set ctxs. x \<in> set (rows (db d)) \<and> lo \<le> BlockNum x \<and> BlockNum x \<le> hi"
    unfolding k by (auto dest!: in_set_takeD simp: in_range_BlockNum)
  then have "BlockNum (last ctxs) \<le> hi"
    using db_Range_Inr(2) [OF assms] last_in_set by blast
  then show "\<forall>r \<in> set (rows (db d)). lo \<le> BlockNum r \<and> BlockNum r < BlockNum (last ctxs) \<longrightarrow> r \<in> set ctxs"
    unfolding k using sorted_prefix_complete [OF sF _ ne]
    by (auto simp: in_range_BlockNum)
qed

text \<open>
  Claim C3. When the page-limited scan of the height index finds nothing (or fails),
  \<open>RangeByNumber\<close> returns nothing. Otherwise its result is the window cut before the first
  record at the height of the window's last record, followed by every stored record at that
  height; that height is the greatest in the result, every stored record at it is in the
  result, and for each height either all stored records at it are in the result or none is.
\<close>

theorem RangeByNumber_height_complete:
  "(db_Range (db d) BlockNumField lo hi pageSize = Inl e \<longrightarrow> RangeByNumber d lo hi pageSize = []) \<and>
   (db_Range (db d) BlockNumField lo hi pageSize = Inr ctxs \<longrightarrow>
      RangeByNumber d lo hi pageSize =
        map ToCrossTransaction (takeWhile (\<lambda>tx. BlockNum tx \<noteq> BlockNum (last ctxs)) ctxs
                                @ filter (\<lambda>r. BlockNum r = BlockNum (last ctxs)) (rows (db d))) \<and>
      Max (ctx_BlockNum ` set (RangeByNumber d lo hi pageSize)) = BlockNum (last ctxs) \<and>
      (\<forall>r \<in> set (rows (db d)).
         BlockNum r = Max (ctx_BlockNum ` set (RangeByNumber d lo hi pageSize)) \<longrightarrow>
         ToCrossTransaction r \<in> set (RangeByNumber d lo hi pageSize)) \<and>
      (\<forall>h. (\<forall>r \<in> set (rows (db d)). BlockNum r = h \<longrightarrow>
                ToCrossTransaction r \<in> set (RangeByNumber d lo hi pageSize)) \<or>
            (\<forall>x \<in> set (RangeByNumber d lo hi pageSize). ctx_BlockNum x \<noteq> h)))"
proof (intro conjI impI)
  assume "db_Range (db d) BlockNumField lo hi pageSize = Inl e"
  then show "RangeByNumber d lo hi pageSize = []" by (rule RangeByNumber_Inl)
next
  assume a: "db_Range (db d) BlockNumField lo hi pageSize = Inr ctxs"
  define H where "H = BlockNum (last ctxs)"
  define A where "A = takeWhile (\<lambda>tx. BlockNum tx \<noteq> H) ctxs"
  define L where "L = filter (\<lambda>r. BlockNum r = H) (rows (db d))"
  note sf = scan_facts [OF a]
  have ne: "ctxs \<noteq> []" using db_Range_Inr(2) [OF a] .
  have R: "RangeByNumber d lo hi pageSize = map ToCrossTransaction (A @ L)"
    by (simp add: RangeByNumber_Inr [OF a] A_def L_def H_def)
  then show "RangeByNumber d lo hi pageSize =
        map ToCrossTransaction (takeWhile (\<lambda>tx. BlockNum tx \<noteq> BlockNum (last ctxs)) ctxs
                                @ filter (\<lambda>r. BlockNum r = BlockNum (last ctxs)) (rows (db d)))"
    by (simp add: A_def L_def H_def)
  have img: "ctx_BlockNum ` set (RangeByNumber d lo hi pageSize) = BlockNum ` (set A \<union> set L)"
    by (simp add: R image_Un image_image ctx_BlockNum_To)
  have lastL: "last ctxs \<in> set L"
    using ne sf(2) by (simp add: L_def H_def)
  have leA: "\<forall>x \<in> set A. BlockNum x \<le> H"
    using sf(1) by (auto simp: A_def H_def dest!: set_takeWhileD intro: sorted_le_last)
  have mx: "Max (BlockNum ` (set A \<union> set L)) = H"
  proof (rule Max_eqI)
    show "finite (BlockNum ` (set A \<union> set L))" by simp
    show "\<And>y. y \<in> BlockNum ` (set A \<union> set L) \<Longrightarrow> y \<le> H"
      using leA by (auto simp: L_def)
    show "H \<in> BlockNum ` (set A \<union> set L)"
      using lastL by (auto simp: H_def)
  qed
  then show m: "Max (ctx_BlockNum ` set (RangeByNumber d lo hi pageSize)) = BlockNum (last ctxs)"
    by (simp add: img H_def)
  have allH: "\<forall>r \<in> set (rows (db d)). BlockNum r = H \<longrightarrow> ToCrossTransaction r \<in> set (RangeByNumber d lo hi pageSize)"
    by (simp add: R L_def)
  then show "\<forall>r \<in> set (rows (db d)).
         BlockNum r = Max (ctx_BlockNum ` set (RangeByNumber d lo hi pageSize)) \<longrightarrow>
         ToCrossTransaction r \<in> set (RangeByNumber d lo hi pageSize)"
    by (simp add: m H_def)
  show "\<forall>h. (\<forall>r \<in> set (rows (db d)). BlockNum r = h \<longrightarrow>
                ToCrossTransaction r \<in> set (RangeByNumber d lo hi pageSize)) \<or>
            (\<forall>x \<in> set (RangeByNumber d lo hi pageSize). ctx_BlockNum x \<noteq> h)"
  proof
    fix h
    show "(\<forall>r \<in> set (rows (db d)). BlockNum r = h \<longrightarrow>
                ToCrossTransaction r \<in> set (RangeByNumber d lo hi pageSize)) \<or>
            (\<forall>x \<in> set (RangeByNumber d lo hi pageSize). ctx_BlockNum x \<noteq> h)"
    proof (cases "lo \<le> h \<and> h \<le> H")
      case False
      have loH: "lo \<le> H"
        using ne sf(2) last_in_set [of ctxs] by (auto simp: H_def)
      have "\<forall>x \<in> set A. lo \<le> BlockNum x"
        using sf(2) by (auto simp: A_def dest!: set_takeWhileD)
      with leA loH have "\<forall>x \<in> set A \<union> set L. lo \<le> BlockNum x \<and> BlockNum x \<le> H"
        by (auto simp: L_def)
      with False have "\<forall>x \<in> set (RangeByNumber d lo hi pageSize). ctx_BlockNum x \<noteq> h"
        by (auto simp: R ctx_BlockNum_To)
      then show ?thesis ..
    next
      case True
      have "\<forall>r \<in> set (rows (db d)). BlockNum r = h \<longrightarrow> r \<in> set A \<union> set L"
      proof (intro ballI impI)
        fix r assume r: "r \<in> set (rows (db d))" "BlockNum r = h"
        show "r \<in> set A \<union> set L"
        proof (cases "h = H")
          case True
          with r show ?thesis by (simp add: L_def)
        next
          case False
          with True r have lt: "BlockNum r < H" by auto
          with True r sf(3) have "r \<in> set ctxs" by (auto simp: H_def)
          with sf(1) lt have "r \<in> set A"
            unfolding A_def by (intro takeWhile_sorted_below)
          then show ?thesis by simp
        qed
      qed
      then have "\<forall>r \<in> set (rows (db d)). BlockNum r = h \<longrightarrow>
          ToCrossTransaction r \<in> set (RangeByNumber d lo hi pageSize)"
        by (auto simp: R)
      then show ?thesis ..
    qed
  qed
qed


theorem RangeByNumber_height_complete_witness:
  "db_Range (db ex_heights) BlockNumField 0 100 4 =
     Inr [ex_rec 1 1 10 5, ex_rec 2 2 10 5, ex_rec 3 3 11 7, ex_rec 4 4 11 7] \<and>
   RangeByNumber ex_heights 0 100 4 =
     [ex_ctx 1 10 5, ex_ctx 2 10 5, ex_ctx 3 11 7, ex_ctx 4 11 7, ex_ctx 5 11 7] \<and>
   Max (ctx_BlockNum ` set (RangeByNumber ex_heights 0 100 4)) = 7 \<and>
   ex_rec 5 5 11 7 \<in> set (rows (db ex_heights)) \<and>
   ToCrossTransaction (ex_rec 5 5 11 7) \<in> set (RangeByNumber ex_heights 0 100 4) \<and>
   db_Range (db ex_heights) BlockNumField 20 30 4 = Inl ErrNotFound \<and>
   RangeByNumber ex_heights 20 30 4 = []"
proof -
  let ?ctxs = "[ex_rec 1 1 10 5, ex_rec 2 2 10 5, ex_rec 3 3 11 7, ex_rec 4 4 11 7]"
  have h1: "db_Range (db ex_heights) BlockNumField 0 100 4 = Inr ?ctxs" by code_simp
  have h2: "db_Range (db ex_heights) BlockNumField 20 30 4 = Inl ErrNotFound" by code_simp
  have h3: "ex_rec 5 5 11 7 \<in> set (rows (db ex_heights))" by code_simp
  have l: "BlockNum (last ?ctxs) = 7" by (simp add: ex_rec_def)
  have v: "map ToCrossTransaction (takeWhile (\<lambda>tx. BlockNum tx \<noteq> 7) ?ctxs
                                @ filter (\<lambda>r. BlockNum r = 7) (rows (db ex_heights))) =
     [ex_ctx 1 10 5, ex_ctx 2 10 5, ex_ctx 3 11 7, ex_ctx 4 11 7, ex_ctx 5 11 7]"
    by code_simp
  from h1 RangeByNumber_height_complete [of ex_heights 0 100 4 undefined ?ctxs]
  have a: "RangeByNumber ex_heights 0 100 4 =
        map ToCrossTransaction (takeWhile (\<lambda>tx. BlockNum tx \<noteq> BlockNum (last ?ctxs)) ?ctxs
                                @ filter (\<lambda>r. BlockNum r = BlockNum (last ?ctxs)) (rows (db ex_heights)))"
    and b: "Max (ctx_BlockNum ` set (RangeByNumber ex_heights 0 100 4)) = BlockNum (last ?ctxs)"
    and c: "\<forall>r \<in> set (rows (db ex_heights)).
         BlockNum r = Max (ctx_BlockNum ` set (RangeByNumber ex_heights 0 100 4)) \<longrightarrow>
         ToCrossTransaction r \<in> set (RangeByNumber ex_heights 0 100 4)"
    by blast+
  from a have a': "RangeByNumber ex_heights 0 100 4 =
      [ex_ctx 1 10 5, ex_ctx 2 10 5, ex_ctx 3 11 7, ex_ctx 4 11 7, ex_ctx 5 11 7]"
    by (simp only: l v)
  from b have b': "Max (ctx_BlockNum ` set (RangeByNumber ex_heights 0 100 4)) = 7"
    by (simp only: l)
  have "BlockNum (ex_rec 5 5 11 7) = 7" by (simp add: ex_rec_def)
  with c h3 b' have c': "ToCrossTransaction (ex_rec 5 5 11 7) \<in> set (RangeByNumber ex_heights 0 100 4)"
    by metis
  from h2 RangeByNumber_height_complete [of ex_heights 20 30 4 ErrNotFound undefined]
  have e: "RangeByNumber ex_heights 20 30 4 = []" by blast
  from h1 h2 h3 a' b' c' e show ?thesis by blast
qed

section \<open>Filtered query\<close>

lemma wrap_int_id: "- 9223372036854775808 \<le> x \<Longrightarrow> x < 9223372036854775808 \<Longrightarrow> wrap_int x = x"
  by (simp add: wrap_int_def)

lemma query_Find_unpaged:
  "(case query_Find n (q\<lparr>q_limit := l, q_skip := s\<rparr>) of Inl err \<Rightarrow> [] | Inr xs \<Rightarrow> xs) =
     storm_Limit l (storm_Skip s
       (case query_Find n (q\<lparr>q_limit := - 1, q_skip := 0\<rparr>) of Inl err \<Rightarrow> [] | Inr xs \<Rightarrow> xs))"
  by (cases "failure n") (simp_all add: query_Find_def found_cases storm_Limit_def storm_Skip_def Let_def)

lemma Query_unpaged:
  "Query d 0 0 orderBy reverse ms =
     map ToCrossTransaction
       (case query_Find (db d)
               \<lparr>q_filter = ms, q_orderBy = orderBy, q_reverse = reverse, q_limit = - 1, q_skip = 0\<rparr> of
          Inl err \<Rightarrow> [] | Inr xs \<Rightarrow> xs)"
  by (cases orderBy; cases reverse) (simp_all add: Query_def db_Select_def Let_def)

lemma Query_paged:
  assumes "0 < pageSize" and "0 < startPage"
  shows "Query d pageSize startPage orderBy reverse ms =
     map ToCrossTransaction
       (case query_Find (db d)
               \<lparr>q_filter = ms, q_orderBy = orderBy, q_reverse = reverse, q_limit = pageSize,
                q_skip = wrap_int (pageSize * wrap_int (startPage - 1))\<rparr> of
          Inl err \<Rightarrow> [] | Inr xs \<Rightarrow> xs)"
  using assms
  by (cases orderBy; cases reverse) (simp_all add: Query_def db_Select_def Let_def)


lemma map_storm_Limit: "map f (storm_Limit l xs) = storm_Limit l (map f xs)"
  by (simp add: storm_Limit_def take_map)

lemma map_storm_Skip: "map f (storm_Skip l xs) = storm_Skip l (map f xs)"
  by (simp add: storm_Skip_def drop_map)

lemma Query_page_of_unpaged:
  assumes "0 < pageSize" and "0 < startPage"
  shows "Query d pageSize startPage orderBy reverse ms =
           storm_Limit pageSize (storm_Skip (wrap_int (pageSize * wrap_int (startPage - 1)))
             (Query d 0 0 orderBy reverse ms))"
proof -
  let ?q = "\<lparr>q_filter = ms, q_orderBy = orderBy, q_reverse = reverse, q_limit = - 1, q_skip = 0\<rparr>"
  have "Query d pageSize startPage orderBy reverse ms =
      map ToCrossTransaction
        (case query_Find (db d)
                (?q\<lparr>q_limit := pageSize, q_skip := wrap_int (pageSize * wrap_int (startPage - 1))\<rparr>) of
           Inl err \<Rightarrow> [] | Inr xs \<Rightarrow> xs)"
    using assms by (simp add: Query_paged)
  also have "\<dots> = map ToCrossTransaction
      (storm_Limit pageSize (storm_Skip (wrap_int (pageSize * wrap_int (startPage - 1)))
        (case query_Find (db d) (?q\<lparr>q_limit := - 1, q_skip := 0\<rparr>) of Inl err \<Rightarrow> [] | Inr xs \<Rightarrow> xs)))"
    by (rule arg_cong [OF query_Find_unpaged])
  also have "\<dots> = storm_Limit pageSize (storm_Skip (wrap_int (pageSize * wrap_int (startPage - 1)))
      (Query d 0 0 orderBy reverse ms))"
    by (simp add: Query_unpaged map_storm_Limit map_storm_Skip)
  finally show ?thesis .
qed

text \<open>
  Claim C6, amended. For a page size \<open>k > 0\<close> and a page number \<open>p \<ge> 1\<close> whose offset
  \<open>k * (p - 1)\<close> does not exceed the greatest \<open>int\<close>, \<open>Query\<close> returns the elements
  \<open>k * (p - 1)\<close> through \<open>k * p - 1\<close> of the ordered, filtered result, which is what \<open>Query\<close>
  returns without pagination; for \<open>k > 0\<close> and \<open>p \<le> 0\<close> it returns the empty result.
\<close>

theorem Query_pagination:
  "(0 < k \<and> 1 \<le> p \<and> k * (p - 1) < 9223372036854775808 \<longrightarrow>
      Query d k p orderBy reverse ms =
        take (nat k) (drop (nat (k * (p - 1))) (Query d 0 0 orderBy reverse ms))) \<and>
   (0 < k \<and> p \<le> 0 \<longrightarrow> Query d k p orderBy reverse ms = [])"
proof (intro conjI impI)
  assume "0 < k \<and> p \<le> 0"
  then show "Query d k p orderBy reverse ms = []"
    by (simp add: Query_def)
next
  assume a: "0 < k \<and> 1 \<le> p \<and> k * (p - 1) < 9223372036854775808"
  then have nn: "0 \<le> k * (p - 1)"
    by (intro mult_nonneg_nonneg) simp_all
  have "p - 1 \<le> k * (p - 1)"
    using a by (simp add: mult_le_cancel_right1)
  with a have w1: "wrap_int (p - 1) = p - 1"
    by (intro wrap_int_id) simp_all
  have w2: "wrap_int (k * (p - 1)) = k * (p - 1)"
  proof (rule wrap_int_id)
    show "- 9223372036854775808 \<le> k * (p - 1)" using nn by linarith
    show "k * (p - 1) < 9223372036854775808" using a by blast
  qed
  have "Query d k p orderBy reverse ms =
      storm_Limit k (storm_Skip (k * (p - 1)) (Query d 0 0 orderBy reverse ms))"
    using a by (simp add: Query_page_of_unpaged w1 w2)
  also have "\<dots> = take (nat k) (drop (nat (k * (p - 1))) (Query d 0 0 orderBy reverse ms))"
    using a nn by (simp add: storm_Limit_def storm_Skip_def)
  finally show "Query d k p orderBy reverse ms =
      take (nat k) (drop (nat (k * (p - 1))) (Query d 0 0 orderBy reverse ms))" .
qed


theorem Query_pagination_witness:
  "Query ex_store 0 0 [BlockNumField] True [] = [ex_ctx 2 11 9, ex_ctx 1 10 5, ex_ctx 3 12 3] \<and>
   Query ex_store 2 2 [BlockNumField] True [] = [ex_ctx 3 12 3] \<and>
   Query ex_store 2 0 [BlockNumField] True [] = []"
proof -
  have u: "Query ex_store 0 0 [BlockNumField] True [] = [ex_ctx 2 11 9, ex_ctx 1 10 5, ex_ctx 3 12 3]"
    by code_simp
  have h1: "(0::int) < 2 \<and> (1::int) \<le> 2 \<and> (2::int) * (2 - 1) < 9223372036854775808" by simp
  have h2: "(0::int) < 2 \<and> (0::int) \<le> 0" by simp
  from h1 Query_pagination [of 2 2 ex_store "[BlockNumField]" True "[]"]
  have "Query ex_store 2 2 [BlockNumField] True [] =
      take (nat 2) (drop (nat (2 * (2 - 1))) (Query ex_store 0 0 [BlockNumField] True []))"
    by blast
  then have a: "Query ex_store 2 2 [BlockNumField] True [] = [ex_ctx 3 12 3]"
    by (simp add: u)
  from h2 Query_pagination [of 2 0 ex_store "[BlockNumField]" True "[]"]
  have b: "Query ex_store 2 0 [BlockNumField] True [] = []"
    by blast
  from u a b show ?thesis by blast
qed

text \<open>
  The claim as it stands fails where the offset overflows: for page size \<open>2^32\<close> and page
  \<open>2^32 + 1\<close> the product \<open>pageSize * (startPage - 1)\<close> is \<open>2^64\<close>, which wraps to 0, so the
  query skips nothing and returns the first records, not the empty slice at offset \<open>2^64\<close>.
\<close>

theorem Query_offset_overflow:
  "Query ex_store 4294967296 4294967297 [] False [] = [ex_ctx 1 10 5, ex_ctx 2 11 9, ex_ctx 3 12 3] \<and>
   take (nat 4294967296) (drop (nat (4294967296 * (4294967297 - 1))) (Query ex_store 0 0 [] False [])) = []"
proof -
  have u: "Query ex_store 0 0 [] False [] = [ex_ctx 1 10 5, ex_ctx 2 11 9, ex_ctx 3 12 3]"
    by code_simp
  have w: "wrap_int (4294967296 * wrap_int 4294967296) = 0"
    by (simp add: wrap_int_def)
  have "Query ex_store 4294967296 4294967297 [] False [] =
      storm_Limit 4294967296 (storm_Skip (wrap_int (4294967296 * wrap_int (4294967297 - 1)))
        (Query ex_store 0 0 [] False []))"
    by (rule Query_page_of_unpaged) simp_all
  then have a: "Query ex_store 4294967296 4294967297 [] False [] =
      [ex_ctx 1 10 5, ex_ctx 2 11 9, ex_ctx 3 12 3]"
    by (simp add: u w storm_Limit_def storm_Skip_def)
  have b: "take (nat 4294967296) (drop (nat (4294967296 * (4294967297 - 1))) (Query ex_store 0 0 [] False [])) = []"
    by (simp add: u)
  from a b show ?thesis by blast
qed

section \<open>Range by insertion order\<close>

lemma insort_key_uint:
  fixes g :: "'a \<Rightarrow> 'b::len word"
  shows "insort_key (\<lambda>r. uint (g r)) x ys = insort_key g x ys"
  by (induction ys) (simp_all add: word_le_def)

lemma sort_key_uint:
  fixes g :: "'a \<Rightarrow> 'b::len word"
  shows "sort_key (\<lambda>r. uint (g r)) xs = sort_key g xs"
  by (induction xs) (simp_all add: insort_key_uint)

lemma sort_key_PKField: "sort_key (field_ord PKField) xs = sort_key PK xs"
proof -
  have "field_ord PKField = (\<lambda>r. uint (PK r))"
    by (rule ext) (simp add: field_ord_PKField)
  then show ?thesis by (simp add: sort_key_uint)
qed

lemma in_range_PK: "in_range PKField lo hi = (\<lambda>r. lo \<le> PK r \<and> PK r \<le> hi)"
  by (rule ext) (simp add: in_range_def field_of_PKField)

lemma db_Range_PK:
  "failure n = None \<Longrightarrow>
   (case db_Range n PKField lo hi pageSize of Inl err \<Rightarrow> [] | Inr xs \<Rightarrow> xs) = spec_pk_scan n lo hi pageSize"
  by (simp add: db_Range_def found_cases spec_pk_scan_def storm_Limit_def sort_key_PKField in_range_PK
      Let_def)

lemma Range_tail:
  "(case db_Range (db d) PKField lo hi pageSize of
      Inl err \<Rightarrow> (d, [])
    | Inr list \<Rightarrow> (d, map ToCrossTransaction list)) =
   (d, map ToCrossTransaction (case db_Range (db d) PKField lo hi pageSize of Inl err \<Rightarrow> [] | Inr xs \<Rightarrow> xs))"
  by (simp split: sum.splits)

lemma get_stored_pair:
  assumes "wf_store d" and "r \<in> set (rows (db d))"
  obtains d1 where "get d (CtxId r) = (d1, Inr r)" and "wf_store d1" and "db d1 = db d"
proof -
  have "get d (CtxId r) = (fst (get d (CtxId r)), Inr r)"
    using wf_get_stored [OF assms] by (cases "get d (CtxId r)") simp
  moreover have "wf_store (fst (get d (CtxId r)))" using assms(1) by (rule wf_get)
  moreover have "db (fst (get d (CtxId r))) = db d" by (rule db_get)
  ultimately show ?thesis by (rule that)
qed

lemma Range_resolved:
  assumes "wf_store d"
    and "\<forall>r. bs = Some r \<longrightarrow> r \<in> set (rows (db d))"
    and "\<forall>r. be = Some r \<longrightarrow> r \<in> set (rows (db d))"
  shows "snd (Range' d pageSize (map_option CtxId bs) (map_option CtxId be)) =
           map ToCrossTransaction
             (spec_pk_scan (db d) (case bs of None \<Rightarrow> 0 | Some r \<Rightarrow> PK r + 1)
                (case be of None \<Rightarrow> MaxUint64 | Some r \<Rightarrow> PK r) pageSize)"
proof -
  have f: "failure (db d) = None" using assms(1) by (simp add: wf_store_def)
  obtain d1 where s: "(case map_option CtxId bs of
              None \<Rightarrow> (d, Inr 0)
            | Some a \<Rightarrow>
                (case get d a of
                   (d1, Inl err) \<Rightarrow> (d1, Inl err)
                 | (d1, Inr start) \<Rightarrow> (d1, Inr (PK start + 1)))) =
        (d1, Inr (case bs of None \<Rightarrow> 0 | Some r \<Rightarrow> PK r + 1))"
      and wf1: "wf_store d1" and db1: "db d1 = db d"
  proof (cases bs)
    case None
    with assms(1) show ?thesis by (intro that [of d]) simp_all
  next
    case (Some r)
    with assms(2) have "r \<in> set (rows (db d))" by simp
    with assms(1) obtain d1 where "get d (CtxId r) = (d1, Inr r)" "wf_store d1" "db d1 = db d"
      by (rule get_stored_pair)
    with Some show ?thesis by (intro that [of d1]) simp_all
  qed
  obtain d2 where e: "(case map_option CtxId be of
                   None \<Rightarrow> (d1, Inr MaxUint64)
                 | Some b \<Rightarrow>
                     (case get d1 b of
                        (d2, Inl err) \<Rightarrow> (d2, Inl err)
                      | (d2, Inr end) \<Rightarrow> (d2, Inr (PK end)))) =
        (d2, Inr (case be of None \<Rightarrow> MaxUint64 | Some r \<Rightarrow> PK r))"
      and db2: "db d2 = db d"
  proof (cases be)
    case None
    with db1 show ?thesis by (intro that [of d1]) simp_all
  next
    case (Some r)
    with assms(3) db1 have "r \<in> set (rows (db d1))" by simp
    with wf1 obtain d2 where "get d1 (CtxId r) = (d2, Inr r)" "wf_store d2" "db d2 = db d1"
      by (rule get_stored_pair)
    with Some db1 show ?thesis by (intro that [of d2]) simp_all
  qed
  show ?thesis
    by (simp only: Range'_def s e prod.case sum.case Range_tail snd_conv db2 db_Range_PK [OF f])
qed


lemma Range_unresolved_start:
  assumes "wf_store d" and "a \<notin> CtxId ` set (rows (db d))"
  shows "Range' d pageSize (Some a) e = (d, [])"
  using wf_get_absent [OF assms] by (simp add: Range'_def)

lemma Range_unresolved_end:
  assumes "wf_store d" and "b \<notin> CtxId ` set (rows (db d))"
  shows "snd (Range' d pageSize s (Some b)) = []"
proof (cases s)
  case None
  with wf_get_absent [OF assms] show ?thesis by (simp add: Range'_def)
next
  case (Some a)
  show ?thesis
  proof (cases "snd (get d a)")
    case (Inl err)
    define d1 where "d1 = fst (get d a)"
    have "get d a = (d1, Inl err)" using Inl by (cases "get d a") (simp add: d1_def)
    with Some show ?thesis by (simp add: Range'_def)
  next
    case (Inr start)
    define d1 where "d1 = fst (get d a)"
    have g: "get d a = (d1, Inr start)" using Inr by (cases "get d a") (simp add: d1_def)
    have "wf_store d1" unfolding d1_def using assms(1) by (rule wf_get)
    moreover have "b \<notin> CtxId ` set (rows (db d1))"
      using assms(2) by (simp add: d1_def db_get)
    ultimately have "get d1 b = (d1, Inl (ErrCtxDbFailure (''get ctx:%s failed'', [b]) (StormErr ErrNotFound)))"
      by (rule wf_get_absent)
    with Some g show ?thesis by (simp add: Range'_def)
  qed
qed

lemma spec_pk_scan_sorted: "sorted (map PK (spec_pk_scan n lo hi pageSize))"
proof -
  have "sorted (map PK (filter (\<lambda>r. lo \<le> PK r \<and> PK r \<le> hi) (sort_key PK (rows n))))"
    by (simp add: sorted_filter)
  then show ?thesis
    by (simp add: spec_pk_scan_def Let_def take_map [symmetric])
qed

lemma spec_pk_scan_set:
  "r \<in> set (spec_pk_scan n lo hi pageSize) \<Longrightarrow> r \<in> set (rows n) \<and> lo \<le> PK r \<and> PK r \<le> hi"
  by (auto simp: spec_pk_scan_def Let_def split: if_splits dest!: in_set_takeD)

lemma spec_pk_scan_length: "0 \<le> pageSize \<Longrightarrow> length (spec_pk_scan n lo hi pageSize) \<le> nat pageSize"
  by (simp add: spec_pk_scan_def Let_def)

lemma spec_pk_scan_unbounded:
  "pageSize < 0 \<Longrightarrow>
   spec_pk_scan n lo hi pageSize = filter (\<lambda>r. lo \<le> PK r \<and> PK r \<le> hi) (sort_key PK (rows n))"
  by (simp add: spec_pk_scan_def Let_def)

lemma word_lt_succ: "(x::uint64) \<noteq> MaxUint64 \<Longrightarrow> x < x + 1"
  using word_succ_gt [of x x] by simp

lemma cache_hit_None_iff:
  "cache_hit d f k = None \<longleftrightarrow> (case cache d of None \<Rightarrow> True | Some c \<Rightarrow> (f, k) \<notin> fst ` set (entries c))"
  by (auto simp: cache_hit_def cache_Has_def cache_Get_def map_of_eq_None_iff split: option.splits)

lemma cache_hit_put_other:
  assumes "cache_hit d f k = None" and "(f, k) \<noteq> (f', k')"
  shows "cache_hit (cache_put d f' k' r) f k = None"
proof (cases "cache d")
  case None
  with assms show ?thesis by (simp add: cache_put_def cache_hit_def)
next
  case (Some c)
  have "set (entries (cache_Put c f' k' r)) \<subseteq> insert ((f', k'), r) (set (entries c))"
    by (auto simp: cache_Put_def dest: in_set_takeD)
  then have "fst ` set (entries (cache_Put c f' k' r)) \<subseteq> insert (f', k') (fst ` set (entries c))"
    by auto
  moreover have "(f, k) \<notin> fst ` set (entries c)"
    using assms(1) Some by (simp add: cache_hit_None_iff)
  ultimately have "(f, k) \<notin> fst ` set (entries (cache_Put c f' k' r))"
    using assms(2) by blast
  with Some show ?thesis
    by (simp add: cache_hit_None_iff cache_put_def)
qed

lemma get_Inl_iff:
  "snd (get d a) = Inl e \<longleftrightarrow>
     cache_hit d CtxIdIndex (KHash a) = None \<and>
     (\<exists>err. db_One (db d) CtxIdIndex (KHash a) = Inl err \<and>
            e = ErrCtxDbFailure (''get ctx:%s failed'', [a]) (StormErr err))"
  by (auto simp: get_def split: option.splits sum.splits)

lemma get_fails_after_get:
  assumes "snd (get d a) = Inl e"
  shows "snd (get (fst (get d b)) a) = Inl e"
proof -
  from assms obtain err where miss: "cache_hit d CtxIdIndex (KHash a) = None"
    and one: "db_One (db d) CtxIdIndex (KHash a) = Inl err"
    and e: "e = ErrCtxDbFailure (''get ctx:%s failed'', [a]) (StormErr err)"
    by (auto simp: get_Inl_iff)
  have "cache_hit (fst (get d b)) CtxIdIndex (KHash a) = None"
  proof (cases "cache_hit d CtxIdIndex (KHash b)")
    case (Some r)
    with miss show ?thesis by (simp add: get_def)
  next
    case None
    show ?thesis
    proof (cases "db_One (db d) CtxIdIndex (KHash b)")
      case (Inl err')
      with None miss show ?thesis by (simp add: get_def)
    next
      case (Inr r)
      with one have "a \<noteq> b" by auto
      then have "(CtxIdIndex, KHash a) \<noteq> (CtxIdIndex, KHash b)" by simp
      with miss have "cache_hit (cache_put d CtxIdIndex (KHash b) r) CtxIdIndex (KHash a) = None"
        by (rule cache_hit_put_other)
      with None Inr show ?thesis by (simp add: get_def)
    qed
  qed
  with one e show ?thesis
    by (simp add: get_Inl_iff db_get)
qed

lemma Range_get_fails_start:
  assumes "snd (get d a) = Inl err"
  shows "snd (Range' d pageSize (Some a) e) = []"
proof -
  obtain d1 where "get d a = (d1, Inl err)"
    using assms by (cases "get d a") simp
  then show ?thesis by (simp add: Range'_def)
qed

lemma Range_get_fails_end:
  assumes "snd (get d b) = Inl err"
  shows "snd (Range' d pageSize s (Some b)) = []"
proof (cases s)
  case None
  obtain d1 where "get d b = (d1, Inl err)"
    using assms by (cases "get d b") simp
  with None show ?thesis by (simp add: Range'_def)
next
  case (Some a)
  show ?thesis
  proof (cases "snd (get d a)")
    case (Inl err')
    then show ?thesis unfolding Some by (rule Range_get_fails_start)
  next
    case (Inr start)
    define d1 where "d1 = fst (get d a)"
    have g: "get d a = (d1, Inr start)" using Inr by (cases "get d a") (simp add: d1_def)
    have "snd (get d1 b) = Inl err"
      unfolding d1_def using assms by (rule get_fails_after_get)
    then obtain d2 where "get d1 b = (d2, Inl err)"
      by (cases "get d1 b") simp
    with Some g show ?thesis by (simp add: Range'_def)
  qed
qed

lemma wf_One: "wf_store d \<Longrightarrow> wf_store (fst (One' d f k))"
  by (auto simp: One'_def field_of_CtxIdIndex split: option.splits sum.splits
      dest!: db_One_hit intro!: wf_cache_put)

text \<open>
  Claim C4, amended. In a well-formed store: when each supplied boundary is the identity of
  a stored record, \<open>Range'\<close> returns the records with \<open>PK\<close> from the start record's
  \<open>PK + 1\<close> (from 0 without a start) to the end record's \<open>PK\<close> (to the greatest \<open>uint64\<close>
  without an end), ascending by \<open>PK\<close>: at most a page of them when the page size is not
  negative, all of them when it is negative. The start record itself is not among them,
  every record returned has a greater \<open>PK\<close>. When a supplied boundary is the identity of
  no stored record, or more generally when \<open>get\<close> fails on it, the result is empty.
\<close>

theorem Range_pk_bounded:
  assumes "wf_store d"
    and "\<forall>r. bs = Some r \<longrightarrow> r \<in> set (rows (db d))"
    and "\<forall>r. be = Some r \<longrightarrow> r \<in> set (rows (db d))"
  shows "(let lo = (case bs of None \<Rightarrow> 0 | Some r \<Rightarrow> PK r + 1);
              hi = (case be of None \<Rightarrow> MaxUint64 | Some r \<Rightarrow> PK r);
              scan = spec_pk_scan (db d) lo hi pageSize
          in snd (Range' d pageSize (map_option CtxId bs) (map_option CtxId be)) = map ToCrossTransaction scan \<and>
             sorted (map PK scan) \<and>
             (0 \<le> pageSize \<longrightarrow>
                length (snd (Range' d pageSize (map_option CtxId bs) (map_option CtxId be))) \<le> nat pageSize) \<and>
             (pageSize < 0 \<longrightarrow>
                scan = filter (\<lambda>r. lo \<le> PK r \<and> PK r \<le> hi) (sort_key PK (rows (db d)))) \<and>
             (\<forall>x \<in> set scan. x \<in> set (rows (db d)) \<and> lo \<le> PK x \<and> PK x \<le> hi) \<and>
             (\<forall>r. bs = Some r \<longrightarrow> r \<notin> set scan \<and> (\<forall>x \<in> set scan. PK r < PK x))) \<and>
         (\<forall>a. a \<notin> CtxId ` set (rows (db d)) \<longrightarrow>
              snd (Range' d pageSize (Some a) e) = [] \<and> snd (Range' d pageSize s (Some a)) = []) \<and>
         (\<forall>a err. snd (get d a) = Inl err \<longrightarrow>
              snd (Range' d pageSize (Some a) e) = [] \<and> snd (Range' d pageSize s (Some a)) = [])"
proof -
  define lo where "lo = (case bs of None \<Rightarrow> 0 | Some r \<Rightarrow> PK r + 1)"
  define hi where "hi = (case be of None \<Rightarrow> MaxUint64 | Some r \<Rightarrow> PK r)"
  define scan where "scan = spec_pk_scan (db d) lo hi pageSize"
  have eq: "snd (Range' d pageSize (map_option CtxId bs) (map_option CtxId be)) = map ToCrossTransaction scan"
    unfolding scan_def lo_def hi_def using assms by (rule Range_resolved)
  have so: "sorted (map PK scan)"
    unfolding scan_def by (rule spec_pk_scan_sorted)
  have len: "0 \<le> pageSize \<longrightarrow>
      length (snd (Range' d pageSize (map_option CtxId bs) (map_option CtxId be))) \<le> nat pageSize"
    by (simp add: eq scan_def spec_pk_scan_length)
  have neg: "pageSize < 0 \<longrightarrow>
      scan = filter (\<lambda>r. lo \<le> PK r \<and> PK r \<le> hi) (sort_key PK (rows (db d)))"
    by (simp add: scan_def spec_pk_scan_unbounded)
  have mem: "\<forall>x \<in> set scan. x \<in> set (rows (db d)) \<and> lo \<le> PK x \<and> PK x \<le> hi"
    unfolding scan_def by (blast dest: spec_pk_scan_set)
  have excl: "\<forall>r. bs = Some r \<longrightarrow> r \<notin> set scan \<and> (\<forall>x \<in> set scan. PK r < PK x)"
  proof (intro allI impI)
    fix r assume b: "bs = Some r"
    with assms(2) have "r \<in> set (rows (db d))" by simp
    with assms(1) have "PK r \<le> seq (db d)" and "seq (db d) \<noteq> MaxUint64"
      by (simp_all add: wf_store_def list_all_iff)
    then have "PK r \<noteq> MaxUint64"
      using le_MaxUint64 [of "seq (db d)"] by auto
    then have lt: "PK r < PK r + 1" by (rule word_lt_succ)
    have "\<forall>x \<in> set scan. PK r < PK x"
    proof
      fix x assume "x \<in> set scan"
      with mem have "lo \<le> PK x" by simp
      with b lt show "PK r < PK x" by (simp add: lo_def)
    qed
    then show "r \<notin> set scan \<and> (\<forall>x \<in> set scan. PK r < PK x)" by auto
  qed
  have un: "\<forall>a. a \<notin> CtxId ` set (rows (db d)) \<longrightarrow>
              snd (Range' d pageSize (Some a) e) = [] \<and> snd (Range' d pageSize s (Some a)) = []"
    using assms(1) by (simp add: Range_unresolved_start Range_unresolved_end)
  have gen: "\<forall>a err. snd (get d a) = Inl err \<longrightarrow>
              snd (Range' d pageSize (Some a) e) = [] \<and> snd (Range' d pageSize s (Some a)) = []"
    by (simp add: Range_get_fails_start Range_get_fails_end)
  from eq so len neg mem excl un gen show ?thesis
    by (simp only: Let_def lo_def [symmetric] hi_def [symmetric] scan_def [symmetric])
qed

theorem Range_pk_bounded_witness:
  "wf_store ex_store \<and>
   snd (Range' ex_store 2 (Some 1) None) = [ex_ctx 2 11 9, ex_ctx 3 12 3] \<and>
   snd (Range' ex_store 1 (Some 1) (Some 3)) = [ex_ctx 2 11 9] \<and>
   snd (Range' ex_store (- 1) (Some 1) None) = [ex_ctx 2 11 9, ex_ctx 3 12 3] \<and>
   snd (Range' ex_store 2 (Some 9) None) = [] \<and>
   snd (Range' ex_store 2 None (Some 9)) = []"
proof -
  have h1: "wf_store ex_store" by code_simp
  have h3: "\<forall>r. Some (ex_rec 1 1 10 5) = Some r \<longrightarrow> r \<in> set (rows (db ex_store))"
    by (simp add: ex_store_def)
  have h4: "\<forall>r. (None :: CrossTransactionIndexed option) = Some r \<longrightarrow> r \<in> set (rows (db ex_store))"
    by simp
  have h5: "\<forall>r. Some (ex_rec 3 3 12 3) = Some r \<longrightarrow> r \<in> set (rows (db ex_store))"
    by (simp add: ex_store_def)
  have h6: "9 \<notin> CtxId ` set (rows (db ex_store))"
    by (simp add: ex_store_def ex_rec_def)
  have s1: "map ToCrossTransaction (spec_pk_scan (db ex_store) (PK (ex_rec 1 1 10 5) + 1) MaxUint64 2) =
      [ex_ctx 2 11 9, ex_ctx 3 12 3]"
    by code_simp
  have s2: "map ToCrossTransaction (spec_pk_scan (db ex_store) (PK (ex_rec 1 1 10 5) + 1) (PK (ex_rec 3 3 12 3)) 1) =
      [ex_ctx 2 11 9]"
    by code_simp
  have s3: "map ToCrossTransaction (spec_pk_scan (db ex_store) (PK (ex_rec 1 1 10 5) + 1) MaxUint64 (- 1)) =
      [ex_ctx 2 11 9, ex_ctx 3 12 3]"
    by code_simp
  have c: "CtxId (ex_rec 1 1 10 5) = 1" "CtxId (ex_rec 3 3 12 3) = 3"
    by (simp_all add: ex_rec_def)
  from Range_pk_bounded [OF h1 h3 h4, of 2]
  have a: "snd (Range' ex_store 2 (Some 1) None) = [ex_ctx 2 11 9, ex_ctx 3 12 3]"
    by (simp add: Let_def c s1)
  from Range_pk_bounded [OF h1 h3 h5, of 1]
  have b: "snd (Range' ex_store 1 (Some 1) (Some 3)) = [ex_ctx 2 11 9]"
    by (simp add: Let_def c s2)
  from Range_pk_bounded [OF h1 h3 h4, of "- 1"]
  have n: "snd (Range' ex_store (- 1) (Some 1) None) = [ex_ctx 2 11 9, ex_ctx 3 12 3]"
    by (simp add: Let_def c s3)
  from h6 Range_pk_bounded [OF h1 h4 h4, of 2 None None]
  have u: "snd (Range' ex_store 2 (Some 9) None) = [] \<and> snd (Range' ex_store 2 None (Some 9)) = []"
    by blast
  from h1 a b n u show ?thesis by blast
qed

text \<open>
  The claim as it stands fails for a negative page size, which the backend's limit takes as
  no limit: the scan returns three records, more than the page size \<open>- 1\<close>.
\<close>

theorem Range_negative_page_size:
  "wf_store ex_store \<and>
   snd (Range' ex_store (- 1) None None) = [ex_ctx 1 10 5, ex_ctx 2 11 9, ex_ctx 3 12 3] \<and>
   \<not> int (length (snd (Range' ex_store (- 1) None None))) \<le> - 1"
proof -
  have a: "wf_store ex_store" by code_simp
  have b: "snd (Range' ex_store (- 1) None None) = [ex_ctx 1 10 5, ex_ctx 2 11 9, ex_ctx 3 12 3]"
    by code_simp
  from a b show ?thesis by simp
qed

end
